theory Spec2Isabelle
  imports Complex_Main
begin

section \<open>Python values used by ghostly.py\<close>

text \<open>
  Strings are byte strings (the source is Python 2). The three string methods the
  source calls are written out: \<open>s.startswith(p)\<close>, \<open>s.replace(old, new)\<close> and
  \<open>s.lower()\<close>.
\<close>

definition startswith :: "string \<Rightarrow> string \<Rightarrow> bool" where
  "startswith s p = (take (length p) s = p)"

text \<open>
  \<open>s.replace(old, new)\<close> replaces every non-overlapping occurrence of \<open>old\<close>, scanning
  from the left. With an empty \<open>old\<close> Python puts \<open>new\<close> before every character and
  at the end.
\<close>

function replace :: "string \<Rightarrow> string \<Rightarrow> string \<Rightarrow> string" where
  "replace old new s =
     (if old = [] then
        (case s of [] \<Rightarrow> new | c # cs \<Rightarrow> new @ c # replace old new cs)
      else if s = [] then []
      else if take (length old) s = old then new @ replace old new (drop (length old) s)
      else hd s # replace old new (tl s))"
  by pat_completeness auto
termination
  by (relation "measure (\<lambda>(old, new, s). length s)") auto

definition ascii_lowercase :: string where
  "ascii_lowercase = ''abcdefghijklmnopqrstuvwxyz''"

definition ascii_uppercase :: string where
  "ascii_uppercase = ''ABCDEFGHIJKLMNOPQRSTUVWXYZ''"

definition lower_char :: "char \<Rightarrow> char" where
  "lower_char c =
     (case map_of (zip ascii_uppercase ascii_lowercase) c of None \<Rightarrow> c | Some l \<Rightarrow> l)"

definition lower :: "string \<Rightarrow> string" where
  "lower s = map lower_char s"

text \<open>\<open>int(x)\<close> on a number truncates towards zero.\<close>

definition py_int :: "rat \<Rightarrow> int" where
  "py_int x = (if 0 \<le> x then \<lfloor>x\<rfloor> else \<lceil>x\<rceil>)"

text \<open>
  An exception is its class and its message. \<open>UnboundLocalError\<close> is what Python
  raises when a local variable is read before any assignment to it.
\<close>

datatype exn_class =
    NoSuchElementException
  | GhostlyTimeoutError
  | GhostlyTestFailed
  | AttributeError
  | ValueError
  | UnboundLocalError

datatype exn = Exn (cls: exn_class) (msg: string)

section \<open>The browser driver\<close>

text \<open>
  The selenium driver, the clock (\<open>time.time\<close>, \<open>time.sleep\<close>) and the random
  generator are outside the repository. They are a parameter: a record of operations
  on a session state \<open>'d\<close> about which nothing is assumed. An operation that reads
  returns its answer and the next state; an operation that only acts returns the next
  state.

  \<^item> \<open>find_elements k p s\<close> is \<open>p.find_elements_by_k(s)\<close>; \<open>None\<close> stands for a raised
    \<open>NoSuchElementException\<close> (the class the source catches; selenium's
    \<open>InvalidSelectorException\<close> is a subclass of it).
  \<^item> \<open>find_element_by_xpath\<close> returns \<open>None\<close> for \<open>NoSuchElementException\<close>.
  \<^item> \<open>get_attribute\<close> returns \<open>None\<close> for Python's \<open>None\<close>.
  \<^item> \<open>now\<close> is \<open>time.time()\<close>, in seconds.
  \<^item> \<open>sleep\<close> is \<open>time.sleep\<close>.
  \<^item> \<open>random_choice\<close> is \<open>random.choice\<close> on a string.
  \<^item> \<open>str_num\<close> is how \<open>%s\<close> prints a number, \<open>int_of_str\<close> is \<open>int(s)\<close> on a string
    (\<open>None\<close> for its \<open>ValueError\<close>).
  \<^item> \<open>py_mul\<close> and \<open>py_add\<close> are \<open>*\<close> and \<open>+\<close> on two numbers as the machine computes them:
    exact on integers, rounded to a float when an operand is a float. A number is
    the rational it stands for.
  Exceptions of the driver other than \<open>NoSuchElementException\<close> are not modelled.
\<close>

type_synonym element = nat

datatype scope = Driver | Within element

datatype locator = By_id | By_class_name | By_tag_name | By_name | By_css_selector | By_link_text

record 'd browser =
  find_elements :: "locator \<Rightarrow> scope \<Rightarrow> string \<Rightarrow> 'd \<Rightarrow> element list option \<times> 'd"
  find_element_by_xpath :: "string \<Rightarrow> 'd \<Rightarrow> element option \<times> 'd"
  tag_name :: "element \<Rightarrow> 'd \<Rightarrow> string \<times> 'd"
  get_attribute :: "element \<Rightarrow> string \<Rightarrow> 'd \<Rightarrow> string option \<times> 'd"
  element_text :: "element \<Rightarrow> 'd \<Rightarrow> string \<times> 'd"
  is_displayed :: "element \<Rightarrow> 'd \<Rightarrow> bool \<times> 'd"
  send_keys :: "element \<Rightarrow> string \<Rightarrow> 'd \<Rightarrow> 'd"
  implicitly_wait :: "rat \<Rightarrow> 'd \<Rightarrow> 'd"
  driver_forward :: "'d \<Rightarrow> 'd"
  driver_back :: "'d \<Rightarrow> 'd"
  title :: "'d \<Rightarrow> string \<times> 'd"
  current_url :: "'d \<Rightarrow> string \<times> 'd"
  now :: "'d \<Rightarrow> rat"
  sleep :: "rat \<Rightarrow> 'd \<Rightarrow> 'd"
  random_choice :: "string \<Rightarrow> 'd \<Rightarrow> char \<times> 'd"
  str_num :: "rat \<Rightarrow> string"
  int_of_str :: "string \<Rightarrow> int option"
  py_mul :: "rat \<Rightarrow> rat \<Rightarrow> rat"
  py_add :: "rat \<Rightarrow> rat \<Rightarrow> rat"

text \<open>\<open>int(t * 1000)\<close> for a time \<open>t\<close>, and \<open>milli_now()\<close>.\<close>

definition millis :: "'d browser \<Rightarrow> rat \<Rightarrow> int" where
  "millis b t = py_int (py_mul b t 1000)"

definition milli_now :: "'d browser \<Rightarrow> 'd \<Rightarrow> int" where
  "milli_now b d = millis b (now b d)"

section \<open>\<open>Ghostly._get_element\<close>\<close>

text \<open>
  \<open>parent\<close> is \<open>None\<close> or an element; \<open>if not parent: parent = self.driver\<close> picks the
  scope (a \<open>WebElement\<close> defines neither \<open>__bool__\<close> nor \<open>__len__\<close>, so it is true).
\<close>

definition scope_of :: "element option \<Rightarrow> scope" where
  "scope_of parent = (case parent of None \<Rightarrow> Driver | Some e \<Rightarrow> Within e)"

definition funcs :: "locator list" where
  "funcs = [By_tag_name, By_name, By_id, By_css_selector, By_link_text]"

text \<open>
  The \<open>for f in funcs\<close> loop. The local variable \<open>elements\<close> is \<open>None\<close> while unbound;
  a lookup that raises leaves it as it was.
\<close>

fun try_funcs ::
  "'d browser \<Rightarrow> locator list \<Rightarrow> scope \<Rightarrow> string \<Rightarrow> element list option \<Rightarrow> 'd
     \<Rightarrow> element list option \<times> 'd" where
  "try_funcs b [] p sel elements d = (elements, d)"
| "try_funcs b (f # fs) p sel elements d =
     (case find_elements b f p sel d of
        (Some es, d') \<Rightarrow>
          if es \<noteq> [] then (Some es, d') else try_funcs b fs p sel (Some es) d'
      | (None, d') \<Rightarrow> try_funcs b fs p sel elements d')"

text \<open>
  The \<open>for element in elements\<close> loop: the first element that is not a hidden form
  input. \<open>and\<close> short-circuits, so the type attribute is read for inputs only.
\<close>

fun first_shown :: "'d browser \<Rightarrow> element list \<Rightarrow> 'd \<Rightarrow> element option \<times> 'd" where
  "first_shown b [] d = (None, d)"
| "first_shown b (e # es) d =
     (case tag_name b e d of (tg, d1) \<Rightarrow>
        if lower tg = ''input'' then
          (case get_attribute b e ''type'' d1 of (ty, d2) \<Rightarrow>
             if ty = Some ''hidden'' then first_shown b es d2 else (Some e, d2))
        else (Some e, d1))"

text \<open>
  One pass through the body of the \<open>while\<close> loop. It returns an element, or goes on to
  the next pass with the value \<open>elements\<close> then has, or lets an exception escape.
\<close>

datatype outcome = Return element | Continue "element list option" | Raise exn

definition pick :: "'d browser \<Rightarrow> element list \<Rightarrow> 'd \<Rightarrow> outcome \<times> 'd" where
  "pick b es d =
     (case first_shown b es d of
        (Some e, d') \<Rightarrow> (Return e, d')
      | (None, d') \<Rightarrow> (Continue (Some es), d'))"

definition attempt ::
  "'d browser \<Rightarrow> string \<Rightarrow> element option \<Rightarrow> element list option \<Rightarrow> 'd \<Rightarrow> outcome \<times> 'd" where
  "attempt b sel parent elements d =
     (if startswith sel ''#'' then
        (case find_elements b By_id (scope_of parent) (replace ''#'' '''' sel) d of
           (Some es, d') \<Rightarrow> pick b es d'
         | (None, d') \<Rightarrow> (Continue elements, d'))
      else if startswith sel ''.'' then
        (case find_elements b By_class_name (scope_of parent) (replace ''.'' '''' sel) d of
           (Some es, d') \<Rightarrow> pick b es d'
         | (None, d') \<Rightarrow> (Continue elements, d'))
      else
        (case try_funcs b funcs (scope_of parent) sel elements d of
           (Some es, d') \<Rightarrow> pick b es d'
         | (None, d') \<Rightarrow>
             (Raise (Exn UnboundLocalError
                ''local variable 'elements' referenced before assignment''), d')))"

definition not_found :: "string \<Rightarrow> exn" where
  "not_found sel = Exn NoSuchElementException (''Could not find element matching '' @ sel)"

text \<open>The \<open>while milli_now() < start + wait\<close> loop; \<open>None\<close> is a loop that never ends.\<close>

partial_function (option) poll ::
  "'d browser \<Rightarrow> string \<Rightarrow> element option \<Rightarrow> rat \<Rightarrow> element list option \<Rightarrow> 'd
     \<Rightarrow> ((exn + element) \<times> 'd) option" where
  "poll b sel parent deadline elements d =
     (if of_int (milli_now b d) < deadline then
        (case attempt b sel parent elements d of
           (Return e, d') \<Rightarrow> Some (Inr e, d')
         | (Continue elements', d') \<Rightarrow> poll b sel parent deadline elements' d'
         | (Raise x, d') \<Rightarrow> Some (Inl x, d'))
      else Some (Inl (not_found sel), d))"

definition get_element ::
  "'d browser \<Rightarrow> string \<Rightarrow> element option \<Rightarrow> rat \<Rightarrow> 'd \<Rightarrow> ((exn + element) \<times> 'd) option" where
  "get_element b sel parent wait d =
     (let wait' = py_mul b wait 1000;
          start = milli_now b d;
          d' = implicitly_wait b 0 d
      in poll b sel parent (py_add b (of_int start) wait') None d')"

declare poll.simps [code]

section \<open>\<open>Ghostly.wait\<close>, \<open>Ghostly.xpath\<close> and \<open>Ghostly.xpath_wait\<close>\<close>

datatype seconds = Num rat | Str string

definition wait :: "'d browser \<Rightarrow> seconds \<Rightarrow> 'd \<Rightarrow> exn + 'd" where
  "wait b seconds d =
     (case seconds of
        Num r \<Rightarrow> Inr (sleep b r d)
      | Str s \<Rightarrow>
          (case int_of_str b s of
             None \<Rightarrow>
               Inl (Exn ValueError
                      (''invalid literal for int() with base 10: '' @ [CHR 0x27] @ s @ [CHR 0x27]))
           | Some i \<Rightarrow> Inr (sleep b (of_int i) d)))"

definition xpath :: "'d browser \<Rightarrow> string \<Rightarrow> 'd \<Rightarrow> element option \<times> 'd" where
  "xpath b x d = find_element_by_xpath b x d"

text \<open>
  The first \<open>while time.time() < stop\<close> loop of \<open>xpath_wait\<close>. It ends with the element
  it found (\<open>break\<close>), with \<open>None\<close> (the loop's \<open>else\<close>) or with an exception of
  \<open>self.wait\<close>, together with the number of attempts so far and the state. The
  parameters \<open>timeout\<close> and \<open>sleep\<close> are numbers.
\<close>

partial_function (option) wait_exists ::
  "'d browser \<Rightarrow> string \<Rightarrow> rat \<Rightarrow> rat \<Rightarrow> nat \<Rightarrow> 'd
     \<Rightarrow> ((exn + element option) \<times> nat \<times> 'd) option" where
  "wait_exists b xp stop sl attempts d =
     (if now b d < stop then
        (case xpath b xp d of
           (Some e, d') \<Rightarrow> Some (Inr (Some e), attempts + 1, d')
         | (None, d') \<Rightarrow>
             (case wait b (Num sl) d' of
                Inr d'' \<Rightarrow> wait_exists b xp stop sl (attempts + 1) d''
              | Inl err \<Rightarrow> Some (Inl err, attempts + 1, d')))
      else Some (Inr None, attempts, d))"

text \<open>The second loop: \<open>True\<close> when the element was seen displayed before \<open>stop\<close>.\<close>

partial_function (option) wait_visible ::
  "'d browser \<Rightarrow> element \<Rightarrow> rat \<Rightarrow> rat \<Rightarrow> nat \<Rightarrow> 'd
     \<Rightarrow> ((exn + bool) \<times> nat \<times> 'd) option" where
  "wait_visible b e stop sl attempts d =
     (if now b d < stop then
        (case is_displayed b e d of
           (shown, d') \<Rightarrow>
             if shown then Some (Inr True, attempts + 1, d')
             else
               (case wait b (Num sl) d' of
                  Inr d'' \<Rightarrow> wait_visible b e stop sl (attempts + 1) d''
                | Inl err \<Rightarrow> Some (Inl err, attempts + 1, d')))
      else Some (Inr False, attempts, d))"

declare wait_exists.simps [code]
declare wait_visible.simps [code]

fun digit_char :: "nat \<Rightarrow> char" where
  "digit_char n = ''0123456789'' ! (n mod 10)"

fun str_nat :: "nat \<Rightarrow> string" where
  "str_nat n = (if n < 10 then [digit_char n] else str_nat (n div 10) @ [digit_char n])"

definition quoted :: "string \<Rightarrow> string" where
  "quoted s = [CHR 0x27] @ s @ [CHR 0x27]"

definition not_selected :: "'d browser \<Rightarrow> string \<Rightarrow> rat \<Rightarrow> nat \<Rightarrow> exn" where
  "not_selected b x timeout attempts =
     Exn GhostlyTimeoutError
       (''Could not select xpath '' @ quoted x @ '' within '' @ str_num b timeout
          @ '' seconds - attempted '' @ str_nat attempts @ '' times.'')"

definition not_visible :: "'d browser \<Rightarrow> string \<Rightarrow> rat \<Rightarrow> nat \<Rightarrow> exn" where
  "not_visible b x timeout attempts =
     Exn GhostlyTimeoutError
       (''Element selected via xpath '' @ quoted x @ '' but is not yet visible within ''
          @ str_num b timeout @ '' seconds - attempted '' @ str_nat attempts @ '' times.'')"

definition xpath_wait ::
  "'d browser \<Rightarrow> string \<Rightarrow> bool \<Rightarrow> rat \<Rightarrow> rat \<Rightarrow> 'd
     \<Rightarrow> ((exn + element) \<times> 'd) option" where
  "xpath_wait b x visible timeout sl d =
     (let start = now b d; stop = py_add b start timeout in
      case wait_exists b x stop sl 0 d of
        None \<Rightarrow> None
      | Some (Inl err, attempts, d1) \<Rightarrow> Some (Inl err, d1)
      | Some (Inr None, attempts, d1) \<Rightarrow> Some (Inl (not_selected b x timeout attempts), d1)
      | Some (Inr (Some element), attempts, d1) \<Rightarrow>
          if \<not> visible then Some (Inr element, d1)
          else
            (case wait_visible b element stop sl attempts d1 of
               None \<Rightarrow> None
             | Some (Inl err, attempts', d2) \<Rightarrow> Some (Inl err, d2)
             | Some (Inr shown, attempts', d2) \<Rightarrow>
                 if shown then Some (Inr element, d2)
                 else Some (Inl (not_visible b x timeout attempts'), d2)))"

text \<open>The defaults of \<open>xpath_wait\<close>: \<open>visible=True, timeout=5, sleep=0.25\<close>.\<close>

definition xpath_wait_default ::
  "'d browser \<Rightarrow> string \<Rightarrow> 'd \<Rightarrow> ((exn + element) \<times> 'd) option" where
  "xpath_wait_default b x d = xpath_wait b x True 5 (1 / 4) d"

section \<open>\<open>Ghostly.fill\<close> and \<open>Ghostly.navigate\<close>\<close>

text \<open>\<open>string.letters\<close> (Python 2, C locale) and \<open>string.digits\<close>.\<close>

definition letters :: string where
  "letters = ascii_lowercase @ ascii_uppercase"

definition digits :: string where
  "digits = ''0123456789''"

text \<open>\<open>''.join(random.choice(string.letters + string.digits) for _ in range(n))\<close>\<close>

fun random_string :: "'d browser \<Rightarrow> nat \<Rightarrow> 'd \<Rightarrow> string \<times> 'd" where
  "random_string b 0 d = ([], d)"
| "random_string b (Suc n) d =
     (case random_choice b (letters @ digits) d of
        (c, d1) \<Rightarrow> (case random_string b n d1 of (cs, d2) \<Rightarrow> (c # cs, d2)))"

text \<open>
  \<open>contents\<close> is a tuple of dictionaries; each is the list of its items, in the order
  \<open>c.items()\<close> gives them. \<open>fill_items\<close> is the inner loop, \<open>fill_contents\<close> the outer.
\<close>

fun fill_items ::
  "'d browser \<Rightarrow> string \<Rightarrow> element \<Rightarrow> (string \<times> string) list \<Rightarrow> 'd
     \<Rightarrow> ((exn + unit) \<times> 'd) option" where
  "fill_items b r form [] d = Some (Inr (), d)"
| "fill_items b r form ((k, v) # kvs) d =
     (let v' = replace ''<random>'' r v in
      case get_element b k (Some form) 10 d of
        None \<Rightarrow> None
      | Some (Inl err, d1) \<Rightarrow> Some (Inl err, d1)
      | Some (Inr element, d1) \<Rightarrow> fill_items b r form kvs (send_keys b element v' d1))"

fun fill_contents ::
  "'d browser \<Rightarrow> string \<Rightarrow> element \<Rightarrow> (string \<times> string) list list \<Rightarrow> 'd
     \<Rightarrow> ((exn + unit) \<times> 'd) option" where
  "fill_contents b r form [] d = Some (Inr (), d)"
| "fill_contents b r form (c # cs) d =
     (case fill_items b r form c d of
        None \<Rightarrow> None
      | Some (Inl err, d1) \<Rightarrow> Some (Inl err, d1)
      | Some (Inr u, d1) \<Rightarrow> fill_contents b r form cs d1)"

definition fill ::
  "'d browser \<Rightarrow> string \<Rightarrow> (string \<times> string) list list \<Rightarrow> 'd
     \<Rightarrow> ((exn + element) \<times> 'd) option" where
  "fill b selector contents d =
     (case random_string b 12 d of
        (r, d0) \<Rightarrow>
          (case get_element b selector None 10 d0 of
             None \<Rightarrow> None
           | Some (Inl err, d1) \<Rightarrow> Some (Inl err, d1)
           | Some (Inr form, d1) \<Rightarrow>
               (case fill_contents b r form contents d1 of
                  None \<Rightarrow> None
                | Some (Inl err, d2) \<Rightarrow> Some (Inl err, d2)
                | Some (Inr u, d2) \<Rightarrow> Some (Inr form, d2))))"

text \<open>
  \<open>getattr(self.driver, navigation)\<close> is reached with one of the two names only.
\<close>

definition navigate :: "'d browser \<Rightarrow> string \<Rightarrow> 'd \<Rightarrow> (exn + unit) \<times> 'd" where
  "navigate b navigation d =
     (if navigation \<notin> set [''forward'', ''back''] then
        (Inl (Exn AttributeError ''An invalid option was given to the navigation command''), d)
      else if navigation = ''forward'' then (Inr (), driver_forward b d)
      else (Inr (), driver_back b d))"

section \<open>The assertions\<close>

text \<open>\<open>sub in s\<close> on strings, \<open>'{}'.format(x)\<close> on a string or \<open>None\<close>.\<close>

fun contains :: "string \<Rightarrow> string \<Rightarrow> bool" where
  "contains [] sub = (sub = [])"
| "contains (c # cs) sub = (startswith (c # cs) sub \<or> contains cs sub)"

definition format_opt :: "string option \<Rightarrow> string" where
  "format_opt v = (case v of None \<Rightarrow> ''None'' | Some s \<Rightarrow> s)"

text \<open>
  The truth value of an element: selenium's \<open>WebElement\<close> defines neither \<open>__bool__\<close>,
  \<open>__nonzero__\<close> nor \<open>__len__\<close>, so every instance is true.
\<close>

definition truthy :: "element \<Rightarrow> bool" where
  "truthy e = True"

text \<open>
  What the five assertions share: \<open>self.wait(1)\<close>, then for the three that look at an
  element \<open>self._get_element(selector)\<close> with its defaults.
\<close>

definition assert_text ::
  "'d browser \<Rightarrow> string \<Rightarrow> string \<Rightarrow> 'd \<Rightarrow> ((exn + unit) \<times> 'd) option" where
  "assert_text b text selector d =
     (case wait b (Num 1) d of
        Inl err \<Rightarrow> Some (Inl err, d)
      | Inr d1 \<Rightarrow>
          (case get_element b selector None 10 d1 of
             None \<Rightarrow> None
           | Some (Inl err, d2) \<Rightarrow> Some (Inl err, d2)
           | Some (Inr element, d2) \<Rightarrow>
               (case element_text b element d2 of
                  (t, d3) \<Rightarrow>
                    if \<not> contains t text then
                      (case element_text b element d3 of
                         (t', d4) \<Rightarrow>
                           Some (Inl (Exn GhostlyTestFailed (text @ '' not in '' @ t')), d4))
                    else Some (Inr (), d3))))"

definition assert_element ::
  "'d browser \<Rightarrow> string \<Rightarrow> 'd \<Rightarrow> ((exn + unit) \<times> 'd) option" where
  "assert_element b selector d =
     (case wait b (Num 1) d of
        Inl err \<Rightarrow> Some (Inl err, d)
      | Inr d1 \<Rightarrow>
          (case get_element b selector None 10 d1 of
             None \<Rightarrow> None
           | Some (Inl err, d2) \<Rightarrow> Some (Inl err, d2)
           | Some (Inr element, d2) \<Rightarrow>
               if \<not> truthy element then
                 Some (Inl (Exn GhostlyTestFailed (''no element matched '' @ selector)), d2)
               else Some (Inr (), d2)))"

definition assert_value ::
  "'d browser \<Rightarrow> string \<Rightarrow> string \<Rightarrow> 'd \<Rightarrow> ((exn + unit) \<times> 'd) option" where
  "assert_value b selector v d =
     (case wait b (Num 1) d of
        Inl err \<Rightarrow> Some (Inl err, d)
      | Inr d1 \<Rightarrow>
          (case get_element b selector None 10 d1 of
             None \<Rightarrow> None
           | Some (Inl err, d2) \<Rightarrow> Some (Inl err, d2)
           | Some (Inr element, d2) \<Rightarrow>
               (case get_attribute b element ''value'' d2 of
                  (a, d3) \<Rightarrow>
                    if a \<noteq> Some v then
                      (case get_attribute b element ''value'' d3 of
                         (a', d4) \<Rightarrow>
                           Some (Inl (Exn GhostlyTestFailed (format_opt a' @ '' != '' @ v)), d4))
                    else Some (Inr (), d3))))"

definition assert_title :: "'d browser \<Rightarrow> string \<Rightarrow> 'd \<Rightarrow> (exn + unit) \<times> 'd" where
  "assert_title b v d =
     (case wait b (Num 1) d of
        Inl err \<Rightarrow> (Inl err, d)
      | Inr d1 \<Rightarrow>
          (case title b d1 of
             (t, d2) \<Rightarrow>
               if t \<noteq> v then
                 (case title b d2 of
                    (t', d3) \<Rightarrow>
                      (Inl (Exn GhostlyTestFailed (''title is '' @ t' @ '' not '' @ v)), d3))
               else (Inr (), d2)))"

definition assert_url :: "'d browser \<Rightarrow> string \<Rightarrow> 'd \<Rightarrow> (exn + unit) \<times> 'd" where
  "assert_url b url d =
     (case wait b (Num 1) d of
        Inl err \<Rightarrow> (Inl err, d)
      | Inr d1 \<Rightarrow>
          (case current_url b d1 of
             (u, d2) \<Rightarrow>
               if u \<noteq> url then
                 (case current_url b d2 of
                    (u', d3) \<Rightarrow>
                      (Inl (Exn GhostlyTestFailed (''url is '' @ u' @ '' not '' @ url)), d3))
               else (Inr (), d2)))"

section \<open>Recording what a run does to the driver\<close>

text \<open>
  To speak about which driver operations a run performs, and when, a driver is wrapped
  so that it appends every operation to a list, with the time at which it was issued
  and its answer. The wrapped driver answers as the driver does.
\<close>

datatype call =
    Find locator scope string "element list option"
  | Find_xpath string "element option"
  | Tag_name element string
  | Get_attribute element string "string option"
  | Element_text element string
  | Is_displayed element bool
  | Send_keys element string
  | Implicitly_wait rat
  | Forward
  | Back
  | Title string
  | Current_url string
  | Sleep rat
  | Random_choice string char

type_synonym event = "rat \<times> call"

definition traced :: "'d browser \<Rightarrow> ('d \<times> event list) browser" where
  "traced b = \<lparr>
     find_elements = (\<lambda>k p s (d, tr).
       case find_elements b k p s d of (r, d') \<Rightarrow> (r, (d', tr @ [(now b d, Find k p s r)]))),
     find_element_by_xpath = (\<lambda>x (d, tr).
       case find_element_by_xpath b x d of (r, d') \<Rightarrow> (r, (d', tr @ [(now b d, Find_xpath x r)]))),
     tag_name = (\<lambda>e (d, tr).
       case tag_name b e d of (r, d') \<Rightarrow> (r, (d', tr @ [(now b d, Tag_name e r)]))),
     get_attribute = (\<lambda>e a (d, tr).
       case get_attribute b e a d of (r, d') \<Rightarrow> (r, (d', tr @ [(now b d, Get_attribute e a r)]))),
     element_text = (\<lambda>e (d, tr).
       case element_text b e d of (r, d') \<Rightarrow> (r, (d', tr @ [(now b d, Element_text e r)]))),
     is_displayed = (\<lambda>e (d, tr).
       case is_displayed b e d of (r, d') \<Rightarrow> (r, (d', tr @ [(now b d, Is_displayed e r)]))),
     send_keys = (\<lambda>e v (d, tr). (send_keys b e v d, tr @ [(now b d, Send_keys e v)])),
     implicitly_wait = (\<lambda>r (d, tr). (implicitly_wait b r d, tr @ [(now b d, Implicitly_wait r)])),
     driver_forward = (\<lambda>(d, tr). (driver_forward b d, tr @ [(now b d, Forward)])),
     driver_back = (\<lambda>(d, tr). (driver_back b d, tr @ [(now b d, Back)])),
     title = (\<lambda>(d, tr). case title b d of (r, d') \<Rightarrow> (r, (d', tr @ [(now b d, Title r)]))),
     current_url = (\<lambda>(d, tr).
       case current_url b d of (r, d') \<Rightarrow> (r, (d', tr @ [(now b d, Current_url r)]))),
     now = (\<lambda>(d, tr). now b d),
     sleep = (\<lambda>r (d, tr). (sleep b r d, tr @ [(now b d, Sleep r)])),
     random_choice = (\<lambda>s (d, tr).
       case random_choice b s d of (c, d') \<Rightarrow> (c, (d', tr @ [(now b d, Random_choice s c)]))),
     str_num = str_num b,
     int_of_str = int_of_str b,
     py_mul = py_mul b,
     py_add = py_add b
   \<rparr>"

text \<open>
  Reading a record: the lookups in it, whether a lookup matched, and what it matched.
\<close>

fun find_args :: "call \<Rightarrow> (locator \<times> scope \<times> string) option" where
  "find_args (Find k p s r) = Some (k, p, s)"
| "find_args c = None"

fun matched :: "call \<Rightarrow> bool" where
  "matched (Find k p s r) = (case r of None \<Rightarrow> False | Some es \<Rightarrow> es \<noteq> [])"
| "matched c = False"

fun matches :: "call \<Rightarrow> element list" where
  "matches (Find k p s r) = (case r of None \<Rightarrow> [] | Some es \<Rightarrow> es)"
| "matches c = []"

definition finds :: "event list \<Rightarrow> call list" where
  "finds tr = filter (\<lambda>c. find_args c \<noteq> None) (map snd tr)"

text \<open>
  The order the specification gives for a list of strategies: the lookups are the
  strategies in their order, each in scope \<open>p\<close> with the selector \<open>sel\<close>, and they end
  with the first lookup that matched, or with the last strategy when none did.
\<close>

fun first_match_order :: "locator list \<Rightarrow> scope \<Rightarrow> string \<Rightarrow> call list \<Rightarrow> bool" where
  "first_match_order [] p sel cs = (cs = [])"
| "first_match_order (f # fs) p sel [] = False"
| "first_match_order (f # fs) p sel (c # cs) =
     (find_args c = Some (f, p, sel)
      \<and> (if matched c then cs = [] else first_match_order fs p sel cs))"

text \<open>
  A driver on which time passes: every lookup and every visibility check takes at least
  \<open>\<delta>\<close> seconds, no read sets the clock back, a sleep of \<open>r\<close> takes at least \<open>r\<close>, and the
  machine's \<open>t * 1000\<close> is within one of the exact product from below.
\<close>

definition ticking :: "'d browser \<Rightarrow> rat \<Rightarrow> bool" where
  "ticking b \<delta> \<longleftrightarrow>
     0 < \<delta>
     \<and> (\<forall>t. t * 1000 - 1 \<le> py_mul b t 1000)
     \<and> (\<forall>k p s d. now b d + \<delta> \<le> now b (snd (find_elements b k p s d)))
     \<and> (\<forall>x d. now b d + \<delta> \<le> now b (snd (find_element_by_xpath b x d)))
     \<and> (\<forall>e d. now b d + \<delta> \<le> now b (snd (is_displayed b e d)))
     \<and> (\<forall>e d. now b d \<le> now b (snd (tag_name b e d)))
     \<and> (\<forall>e a d. now b d \<le> now b (snd (get_attribute b e a d)))
     \<and> (\<forall>r d. 0 \<le> r \<longrightarrow> now b d + r \<le> now b (sleep b r d))"

text \<open>
  More readings of a record: the strategy a pass of the resolver opens with, whether a
  call is one of the two reads that examine an element, whether such a read shows the
  element not to be a hidden input, whether a lookup raised, and whether a call is a
  sleep.
\<close>

definition first_locator :: "string \<Rightarrow> locator" where
  "first_locator sel =
     (if startswith sel ''#'' then By_id
      else if startswith sel ''.'' then By_class_name
      else By_tag_name)"

fun is_check :: "call \<Rightarrow> bool" where
  "is_check (Tag_name e tg) = True"
| "is_check (Get_attribute e a v) = True"
| "is_check c = False"

fun qualifies :: "element \<Rightarrow> call \<Rightarrow> bool" where
  "qualifies e (Tag_name e' tg) = (e' = e \<and> lower tg \<noteq> ''input'')"
| "qualifies e (Get_attribute e' a v) = (e' = e \<and> a = ''type'' \<and> v \<noteq> Some ''hidden'')"
| "qualifies e c = False"

fun raised :: "call \<Rightarrow> bool" where
  "raised (Find k p s r) = (r = None)"
| "raised c = False"

fun is_sleep :: "call \<Rightarrow> bool" where
  "is_sleep (Sleep r) = True"
| "is_sleep c = False"

definition unbound_elements :: exn where
  "unbound_elements =
     Exn UnboundLocalError ''local variable 'elements' referenced before assignment''"

text \<open>
  A hidden input, for elements whose tag and type attribute are \<open>tg\<close> and \<open>ty\<close>.
\<close>

definition hidden_input :: "(element \<Rightarrow> string) \<Rightarrow> (element \<Rightarrow> string option) \<Rightarrow> element \<Rightarrow> bool" where
  "hidden_input tg ty e \<longleftrightarrow> lower (tg e) = ''input'' \<and> ty e = Some ''hidden''"

text \<open>
  The passes of the resolver, told apart from its loop. \<open>fruitless n\<close> is where the call
  stands after \<open>n\<close> passes that each began while the clock read less than the deadline
  \<open>D\<close> and each went on to the next pass: the value of \<open>elements\<close> and the state, or
  \<open>None\<close> if the first \<open>n\<close> passes were not of that kind.
\<close>

fun fruitless ::
  "'d browser \<Rightarrow> string \<Rightarrow> element option \<Rightarrow> rat \<Rightarrow> nat \<Rightarrow> element list option \<Rightarrow> 'd
     \<Rightarrow> (element list option \<times> 'd) option" where
  "fruitless b sel parent D 0 els d = Some (els, d)"
| "fruitless b sel parent D (Suc n) els d =
     (if of_int (milli_now b d) < D then
        (case attempt b sel parent els d of
           (Continue els', d') \<Rightarrow> fruitless b sel parent D n els' d'
         | (Return e, d') \<Rightarrow> None
         | (Raise x, d') \<Rightarrow> None)
      else None)"

text \<open>
  The list of elements that the lookups of a pass end with, the list of the winning
  lookup, and the state then. It is \<open>None\<close> when the one lookup of a prefixed selector
  raised, or when \<open>elements\<close> is still unbound after the five lookups.
\<close>

definition winning ::
  "'d browser \<Rightarrow> string \<Rightarrow> element option \<Rightarrow> element list option \<Rightarrow> 'd
     \<Rightarrow> element list option \<times> 'd" where
  "winning b sel parent els d =
     (if startswith sel ''#'' then
        find_elements b By_id (scope_of parent) (replace ''#'' [] sel) d
      else if startswith sel ''.'' then
        find_elements b By_class_name (scope_of parent) (replace ''.'' [] sel) d
      else try_funcs b funcs (scope_of parent) sel els d)"

section \<open>A driver to run the examples on\<close>

text \<open>
  The session state is the clock, in seconds. Every lookup takes one second,
  \<open>sleep r\<close> takes \<open>r\<close> seconds, everything else takes no time. The page is given by
  what the lookups answer at each time, the tag and the attributes of each element, and
  when each element is displayed. \<open>random.choice\<close> draws the first character, and the
  arithmetic is exact.
\<close>

definition clockwork ::
  "(locator \<Rightarrow> scope \<Rightarrow> string \<Rightarrow> rat \<Rightarrow> element list option) \<Rightarrow> (string \<Rightarrow> rat \<Rightarrow> element option)
     \<Rightarrow> (element \<Rightarrow> string) \<Rightarrow> (element \<Rightarrow> string \<Rightarrow> string option) \<Rightarrow> (element \<Rightarrow> rat \<Rightarrow> bool)
     \<Rightarrow> rat browser" where
  "clockwork answers by_xpath tag attr shown = \<lparr>
     find_elements = (\<lambda>k p s t. (answers k p s t, t + 1)),
     find_element_by_xpath = (\<lambda>x t. (by_xpath x t, t + 1)),
     tag_name = (\<lambda>e t. (tag e, t)),
     get_attribute = (\<lambda>e a t. (attr e a, t)),
     element_text = (\<lambda>e t. (''some text'', t)),
     is_displayed = (\<lambda>e t. (shown e t, t + 1)),
     send_keys = (\<lambda>e v t. t),
     implicitly_wait = (\<lambda>r t. t),
     driver_forward = (\<lambda>t. t),
     driver_back = (\<lambda>t. t),
     title = (\<lambda>t. (''a title'', t)),
     current_url = (\<lambda>t. (''http://localhost/'', t)),
     now = (\<lambda>t. t),
     sleep = (\<lambda>r t. t + r),
     random_choice = (\<lambda>s t. (hd s, t)),
     str_num = (\<lambda>r. if r = 1 then ''1'' else if r = 5 then ''5'' else ''?''),
     int_of_str = (\<lambda>s. None),
     py_mul = (\<lambda>x y. x * y),
     py_add = (\<lambda>x y. x + y)
   \<rparr>"

text \<open>A page with nothing on it.\<close>

definition blank :: "rat browser" where
  "blank = clockwork (\<lambda>k p s t. Some []) (\<lambda>x t. None) (\<lambda>e. ''div'') (\<lambda>e a. None) (\<lambda>e t. False)"

text \<open>
  A search form: two inputs named \<open>q\<close>, the first of them hidden and the second with the
  value \<open>Hello World\<close>; an input named
  \<open>token\<close> that is hidden; a form with the tag \<open>form\<close>; an element whose identifier is
  \<open>a#b\<close>.
\<close>

definition search_page :: "rat browser" where
  "search_page = clockwork
     (\<lambda>k p s t.
        if k = By_name \<and> s = ''q'' then Some [1, 2]
        else if k = By_name \<and> s = ''token'' then Some [1]
        else if k = By_tag_name \<and> s = ''form'' then Some [4]
        else if k = By_tag_name \<and> s = ''input'' then Some [1, 2]
        else if k = By_id \<and> s = ''a#b'' then Some [3]
        else Some [])
     (\<lambda>x t. None)
     (\<lambda>e. if e = 1 \<or> e = 2 then ''INPUT'' else if e = 4 then ''form'' else ''div'')
     (\<lambda>e a.
        if e = 1 \<and> a = ''type'' then Some ''hidden''
        else if e = 2 \<and> a = ''type'' then Some ''text''
        else if e = 2 \<and> a = ''value'' then Some ''Hello World''
        else None)
     (\<lambda>e t. True)"

text \<open>
  A page on which the link \<open>//a\<close>, element 5, appears after two seconds and is displayed
  after four, and on which the element with the identifier \<open>late\<close>, element 6, appears
  after two seconds.
\<close>

definition late_link :: "rat browser" where
  "late_link = clockwork
     (\<lambda>k p s t. if k = By_id \<and> s = ''late'' \<and> 2 \<le> t then Some [6] else Some [])
     (\<lambda>x t. if x = ''//a'' \<and> 2 \<le> t then Some 5 else None) (\<lambda>e. ''a'') (\<lambda>e a. None)
     (\<lambda>e t. 4 \<le> t)"

section \<open>Facts about the recording driver\<close>

lemma finds_append [simp]: "finds (xs @ ys) = finds xs @ finds ys"
  by (simp add: finds_def)

lemma finds_Nil [simp]: "finds [] = []"
  by (simp add: finds_def)

lemma traced_find_elements:
  "find_elements (traced b) k p s (d, tr) =
     (fst (find_elements b k p s d), (snd (find_elements b k p s d),
        tr @ [(now b d, Find k p s (fst (find_elements b k p s d)))]))"
  by (simp add: traced_def split: prod.splits)

lemma traced_tag_name:
  "tag_name (traced b) e (d, tr) =
     (fst (tag_name b e d), (snd (tag_name b e d), tr @ [(now b d, Tag_name e (fst (tag_name b e d)))]))"
  by (simp add: traced_def split: prod.splits)

lemma traced_get_attribute:
  "get_attribute (traced b) e a (d, tr) =
     (fst (get_attribute b e a d), (snd (get_attribute b e a d),
        tr @ [(now b d, Get_attribute e a (fst (get_attribute b e a d)))]))"
  by (simp add: traced_def split: prod.splits)

lemma try_funcs_traced:
  "try_funcs (traced b) fs p sel els (d, tr) = (r, (d', tr')) \<Longrightarrow>
   \<exists>T. tr' = tr @ T \<and> finds T = map snd T \<and> first_match_order fs p sel (map snd T)
      \<and> (T \<noteq> [] \<and> matched (snd (last T)) \<longrightarrow> r = Some (matches (snd (last T))))"
proof (induction fs arbitrary: els d tr)
  case Nil
  then show ?case by simp
next
  case (Cons f fs)
  obtain r1 d1 where f1: "find_elements b f p sel d = (r1, d1)"
    by (cases "find_elements b f p sel d")
  let ?ev = "(now b d, Find f p sel r1)"
  show ?case
  proof (cases "matched (Find f p sel r1)")
    case True
    then obtain es where es: "r1 = Some es" "es \<noteq> []"
      by (cases r1) auto
    with Cons.prems f1 have "r = Some es" "tr' = tr @ [?ev]"
      by (auto simp: traced_find_elements)
    with es show ?thesis
      by (intro exI [of _ "[?ev]"]) (simp add: finds_def)
  next
    case False
    define els1 where "els1 = (case r1 of None \<Rightarrow> els | Some es \<Rightarrow> Some es)"
    from False Cons.prems f1
    have rest: "try_funcs (traced b) fs p sel els1 (d1, tr @ [?ev]) = (r, (d', tr'))"
      by (cases r1) (simp_all add: traced_find_elements els1_def)
    from Cons.IH [OF rest] obtain T where T:
      "tr' = (tr @ [?ev]) @ T" "finds T = map snd T" "first_match_order fs p sel (map snd T)"
      "T \<noteq> [] \<and> matched (snd (last T)) \<longrightarrow> r = Some (matches (snd (last T)))"
      by blast
    show ?thesis
    proof (intro exI [of _ "?ev # T"] conjI)
      show "tr' = tr @ ?ev # T" using T(1) by simp
      show "finds (?ev # T) = map snd (?ev # T)" using T(2) by (simp add: finds_def)
      show "first_match_order (f # fs) p sel (map snd (?ev # T))" using T(3) False by simp
      show "?ev # T \<noteq> [] \<and> matched (snd (last (?ev # T))) \<longrightarrow> r = Some (matches (snd (last (?ev # T))))"
        using T(4) False by auto
    qed
  qed
qed

lemma first_shown_traced:
  "first_shown (traced b) es (d, tr) = (r, (d', tr')) \<Longrightarrow>
   \<exists>T. tr' = tr @ T \<and> finds T = [] \<and> (\<forall>e. r = Some e \<longrightarrow> e \<in> set es)"
proof (induction es arbitrary: d tr)
  case Nil
  then show ?case by simp
next
  case (Cons e es)
  obtain tg d1 where t1: "tag_name b e d = (tg, d1)" by (cases "tag_name b e d")
  obtain ty d2 where t2: "get_attribute b e ''type'' d1 = (ty, d2)"
    by (cases "get_attribute b e ''type'' d1")
  show ?case
  proof (cases "lower tg = ''input'' \<and> ty = Some ''hidden''")
    case True
    with Cons.prems t1 t2
    have "first_shown (traced b) es (d2, tr @ [(now b d, Tag_name e tg)] @ [(now b d1, Get_attribute e ''type'' ty)]) = (r, (d', tr'))"
      by (simp add: traced_tag_name traced_get_attribute)
    from Cons.IH [OF this] show ?thesis
      by (auto simp: finds_def)
  next
    case False
    with Cons.prems t1 t2 show ?thesis
      by (auto simp: traced_tag_name traced_get_attribute finds_def split: if_splits)
  qed
qed


lemma attempt_traced_fallback:
  assumes "\<not> startswith sel ''#''" "\<not> startswith sel ''.''"
    and "attempt (traced b) sel parent els (d, tr) = (out, (d', tr'))"
  shows "\<exists>T. tr' = tr @ T
     \<and> first_match_order [By_tag_name, By_name, By_id, By_css_selector, By_link_text]
           (scope_of parent) sel (finds T)
     \<and> (matched (last (finds T)) \<longrightarrow> (\<forall>e. out = Return e \<longrightarrow> e \<in> set (matches (last (finds T)))))"
proof -
  obtain r d1 tr1 where tf: "try_funcs (traced b) funcs (scope_of parent) sel els (d, tr) = (r, (d1, tr1))"
    by (metis surj_pair)
  from try_funcs_traced [OF tf] obtain T1 where T1:
    "tr1 = tr @ T1" "finds T1 = map snd T1" "first_match_order funcs (scope_of parent) sel (map snd T1)"
    "T1 \<noteq> [] \<and> matched (snd (last T1)) \<longrightarrow> r = Some (matches (snd (last T1)))"
    by blast
  have ne: "T1 \<noteq> []" using T1(3) by (auto simp: funcs_def)
  show ?thesis
  proof (cases r)
    case None
    with assms tf have "tr' = tr1" "out = Raise (Exn UnboundLocalError ''local variable 'elements' referenced before assignment'')"
      by (auto simp: attempt_def)
    with T1 ne None show ?thesis
      by (intro exI [of _ T1]) (auto simp: funcs_def last_map)
  next
    case (Some es)
    with assms tf have pk: "pick (traced b) es (d1, tr1) = (out, (d', tr'))"
      by (simp add: attempt_def)
    obtain r2 d2 tr2 where fs: "first_shown (traced b) es (d1, tr1) = (r2, (d2, tr2))"
      by (metis surj_pair)
    from first_shown_traced [OF fs] obtain T2 where T2:
      "tr2 = tr1 @ T2" "finds T2 = []" "\<forall>e. r2 = Some e \<longrightarrow> e \<in> set es"
      by blast
    from pk fs have tr': "tr' = tr2" and out: "\<forall>e. out = Return e \<longrightarrow> r2 = Some e"
      by (auto simp: pick_def split: option.splits)
    show ?thesis
    proof (intro exI [of _ "T1 @ T2"] conjI)
      show "tr' = tr @ T1 @ T2" using tr' T2(1) T1(1) by simp
      show "first_match_order [By_tag_name, By_name, By_id, By_css_selector, By_link_text]
           (scope_of parent) sel (finds (T1 @ T2))"
        using T1(2,3) T2(2) by (simp add: funcs_def)
      show "matched (last (finds (T1 @ T2))) \<longrightarrow>
          (\<forall>e. out = Return e \<longrightarrow> e \<in> set (matches (last (finds (T1 @ T2)))))"
        using T1(2,4) T2(2,3) ne out Some by (auto simp: last_map)
    qed
  qed
qed

lemma attempt_traced_prefixed:
  assumes "attempt (traced b) sel parent els (d, tr) = (out, (d', tr'))"
  shows "(startswith sel ''#'' \<longrightarrow>
           (\<exists>T. tr' = tr @ T \<and> map find_args (finds T) = [Some (By_id, scope_of parent, replace ''#'' [] sel)]))
       \<and> (\<not> startswith sel ''#'' \<and> startswith sel ''.'' \<longrightarrow>
           (\<exists>T. tr' = tr @ T \<and> map find_args (finds T) = [Some (By_class_name, scope_of parent, replace ''.'' [] sel)]))"
proof -
  have *: "\<exists>T. tr' = tr @ T \<and> map find_args (finds T) = [Some (k, scope_of parent, s)]"
    if "(case find_elements (traced b) k (scope_of parent) s (d, tr) of
           (Some es, d') \<Rightarrow> pick (traced b) es d'
         | (None, d') \<Rightarrow> (Continue els, d')) = (out, (d', tr'))" for k s
  proof (cases "fst (find_elements b k (scope_of parent) s d)")
    case None
    with that show ?thesis
      by (auto simp: traced_find_elements finds_def)
  next
    case (Some es)
    let ?ev = "(now b d, Find k (scope_of parent) s (Some es))"
    from that Some have pk: "pick (traced b) es (snd (find_elements b k (scope_of parent) s d), tr @ [?ev]) = (out, (d', tr'))"
      by (simp add: traced_find_elements)
    obtain r2 d2 tr2 where fs: "first_shown (traced b) es (snd (find_elements b k (scope_of parent) s d), tr @ [?ev]) = (r2, (d2, tr2))"
      by (metis surj_pair)
    from first_shown_traced [OF fs] obtain T2 where T2:
      "tr2 = (tr @ [?ev]) @ T2" "finds T2 = []"
      by blast
    from pk fs have "tr' = tr2"
      by (auto simp: pick_def split: option.splits)
    with T2 show ?thesis
      by (intro exI [of _ "?ev # T2"]) (simp add: finds_def)
  qed
  show ?thesis
  proof (intro conjI impI)
    assume "startswith sel ''#''"
    with assms show "\<exists>T. tr' = tr @ T \<and> map find_args (finds T) = [Some (By_id, scope_of parent, replace ''#'' [] sel)]"
      by (intro *) (simp add: attempt_def)
  next
    assume "\<not> startswith sel ''#'' \<and> startswith sel ''.''"
    with assms show "\<exists>T. tr' = tr @ T \<and> map find_args (finds T) = [Some (By_class_name, scope_of parent, replace ''.'' [] sel)]"
      by (intro *) (simp add: attempt_def)
  qed
qed


section \<open>The order of the lookups\<close>

text \<open>
  C2. One pass of the resolver on a recording driver, started with an empty record. For
  a selector that begins with neither \<open>#\<close> nor \<open>.\<close> the lookups recorded are the
  strategies tag name, name, identifier, CSS selector, link text in this order, each in
  the scope and with the selector as given, and they stop with the first lookup that
  returned at least one match (no later strategy is recorded); when the last lookup
  matched, an element the pass returns is one of its matches. For a selector that begins
  with \<open>#\<close> or \<open>.\<close> the record holds a single lookup, by identifier or by class name,
  and so none of the chain.
\<close>

theorem lookup_order:
  assumes "attempt (traced b) sel parent els (d, []) = (out, (d', T))"
  shows "(\<not> startswith sel ''#'' \<and> \<not> startswith sel ''.'' \<longrightarrow>
            first_match_order [By_tag_name, By_name, By_id, By_css_selector, By_link_text]
              (scope_of parent) sel (finds T)
            \<and> (matched (last (finds T)) \<longrightarrow>
                 (\<forall>e. out = Return e \<longrightarrow> e \<in> set (matches (last (finds T))))))
       \<and> (startswith sel ''#'' \<longrightarrow>
            map find_args (finds T) = [Some (By_id, scope_of parent, replace ''#'' [] sel)])
       \<and> (\<not> startswith sel ''#'' \<and> startswith sel ''.'' \<longrightarrow>
            map find_args (finds T)
              = [Some (By_class_name, scope_of parent, replace ''.'' [] sel)])"
  using attempt_traced_fallback [OF _ _ assms] attempt_traced_prefixed [OF assms]
  by auto

theorem lookup_order_witness:
  "attempt (traced search_page) ''q'' None None (0, [])
     = (Return 2, (2, [(0, Find By_tag_name Driver ''q'' (Some [])),
                       (1, Find By_name Driver ''q'' (Some [1, 2])),
                       (2, Tag_name 1 ''INPUT''),
                       (2, Get_attribute 1 ''type'' (Some ''hidden'')),
                       (2, Tag_name 2 ''INPUT''),
                       (2, Get_attribute 2 ''type'' (Some ''text''))]))
   \<and> first_match_order [By_tag_name, By_name, By_id, By_css_selector, By_link_text] Driver ''q''
         [Find By_tag_name Driver ''q'' (Some []), Find By_name Driver ''q'' (Some [1, 2])]"
proof -
  have run: "attempt (traced search_page) ''q'' None None (0, [])
     = (Return 2, (2, [(0, Find By_tag_name Driver ''q'' (Some [])),
                       (1, Find By_name Driver ''q'' (Some [1, 2])),
                       (2, Tag_name 1 ''INPUT''),
                       (2, Get_attribute 1 ''type'' (Some ''hidden'')),
                       (2, Tag_name 2 ''INPUT''),
                       (2, Get_attribute 2 ''type'' (Some ''text''))]))"
    by (simp add: attempt_def startswith_def funcs_def scope_of_def pick_def traced_def
          search_page_def clockwork_def lower_def lower_char_def ascii_uppercase_def
          ascii_lowercase_def)
  from lookup_order [OF run] run show ?thesis
    by (simp add: startswith_def scope_of_def finds_def)
qed

section \<open>\<open>navigate\<close> accepts two directions\<close>

text \<open>
  C9. For every argument other than the strings \<open>forward\<close> and \<open>back\<close>, \<open>navigate\<close>
  raises \<open>AttributeError\<close> and leaves the driver in the state it was in; on a recording
  driver nothing is appended to the record. For \<open>forward\<close> it performs the driver's
  \<open>forward\<close> and for \<open>back\<close> the driver's \<open>back\<close>, and nothing else.
\<close>

theorem navigate_forward_back_only:
  "(navigation \<noteq> ''forward'' \<and> navigation \<noteq> ''back'' \<longrightarrow>
      navigate b navigation d =
        (Inl (Exn AttributeError ''An invalid option was given to the navigation command''), d)
      \<and> snd (snd (navigate (traced b) navigation (d, tr))) = tr)
   \<and> navigate b ''forward'' d = (Inr (), driver_forward b d)
   \<and> navigate b ''back'' d = (Inr (), driver_back b d)
   \<and> snd (snd (navigate (traced b) ''forward'' (d, tr))) = tr @ [(now b d, Forward)]
   \<and> snd (snd (navigate (traced b) ''back'' (d, tr))) = tr @ [(now b d, Back)]"
  by (simp add: navigate_def traced_def)

theorem navigate_sideways_witness:
  "navigate (traced blank) ''sideways'' (0, []) =
     (Inl (Exn AttributeError ''An invalid option was given to the navigation command''), (0, []))"
  using navigate_forward_back_only [of "''sideways''" "traced blank" "(0, [])"]
  by simp

lemma ticking_find:
  assumes "ticking b \<delta>" and "find_elements b k p s d = (r, d')"
  shows "now b d + \<delta> \<le> now b d'"
proof -
  from assms(1) have "now b d + \<delta> \<le> now b (snd (find_elements b k p s d))"
    unfolding ticking_def by blast
  with assms(2) show ?thesis by simp
qed

lemma ticking_tag:
  assumes "ticking b \<delta>" and "tag_name b e d = (r, d')"
  shows "now b d \<le> now b d'"
proof -
  from assms(1) have "now b d \<le> now b (snd (tag_name b e d))"
    unfolding ticking_def by blast
  with assms(2) show ?thesis by simp
qed

lemma ticking_attr:
  assumes "ticking b \<delta>" and "get_attribute b e a d = (r, d')"
  shows "now b d \<le> now b d'"
proof -
  from assms(1) have "now b d \<le> now b (snd (get_attribute b e a d))"
    unfolding ticking_def by blast
  with assms(2) show ?thesis by simp
qed

lemma ticking_pos: "ticking b \<delta> \<Longrightarrow> 0 < \<delta>"
  by (simp add: ticking_def)

lemma try_funcs_clock:
  "ticking b \<delta> \<Longrightarrow> try_funcs b fs p sel els d = (r, d') \<Longrightarrow>
     now b d \<le> now b d' \<and> (fs \<noteq> [] \<longrightarrow> now b d + \<delta> \<le> now b d')"
proof (induction fs arbitrary: els d)
  case Nil
  then show ?case by simp
next
  case (Cons f fs)
  obtain r1 d1 where f1: "find_elements b f p sel d = (r1, d1)"
    by (cases "find_elements b f p sel d")
  from ticking_find [OF Cons.prems(1) f1] have t1: "now b d + \<delta> \<le> now b d1" .
  have pos: "0 < \<delta>" using Cons.prems(1) by (rule ticking_pos)
  show ?case
  proof (cases "\<exists>es. r1 = Some es \<and> es \<noteq> []")
    case True
    with Cons.prems(2) f1 have "d' = d1" by auto
    with t1 pos show ?thesis by simp
  next
    case False
    with Cons.prems(2) f1 obtain els1 where "try_funcs b fs p sel els1 d1 = (r, d')"
      by (cases r1) auto
    from Cons.IH [OF Cons.prems(1) this] t1 pos show ?thesis by simp
  qed
qed

lemma first_shown_clock:
  "ticking b \<delta> \<Longrightarrow> first_shown b es d = (r, d') \<Longrightarrow> now b d \<le> now b d'"
proof (induction es arbitrary: d)
  case Nil
  then show ?case by simp
next
  case (Cons e es)
  obtain tg d1 where t1: "tag_name b e d = (tg, d1)" by (cases "tag_name b e d")
  obtain ty d2 where t2: "get_attribute b e ''type'' d1 = (ty, d2)"
    by (cases "get_attribute b e ''type'' d1")
  note c1 = ticking_tag [OF Cons.prems(1) t1] and c2 = ticking_attr [OF Cons.prems(1) t2]
  show ?case
  proof (cases "lower tg = ''input'' \<and> ty = Some ''hidden''")
    case True
    with Cons.prems(2) t1 t2 have "first_shown b es d2 = (r, d')" by simp
    from Cons.IH [OF Cons.prems(1) this] c1 c2 show ?thesis by simp
  next
    case False
    with Cons.prems(2) t1 t2 have "d' = d1 \<or> d' = d2" by (auto split: if_splits)
    with c1 c2 show ?thesis by auto
  qed
qed

lemma pick_clock:
  "ticking b \<delta> \<Longrightarrow> pick b es d = (out, d') \<Longrightarrow> now b d \<le> now b d'"
  using first_shown_clock [of b \<delta> es d]
  by (cases "first_shown b es d") (auto simp: pick_def split: option.splits)

lemma attempt_clock:
  assumes "ticking b \<delta>" and "attempt b sel parent els d = (out, d')"
  shows "now b d + \<delta> \<le> now b d'"
proof -
  have one: "now b d + \<delta> \<le> now b d'"
    if "(case find_elements b k (scope_of parent) s d of
           (Some es, d') \<Rightarrow> pick b es d'
         | (None, d') \<Rightarrow> (Continue els, d')) = (out, d')" for k s
  proof -
    obtain r1 d1 where f1: "find_elements b k (scope_of parent) s d = (r1, d1)"
      by (cases "find_elements b k (scope_of parent) s d")
    note t1 = ticking_find [OF assms(1) f1]
    show ?thesis
    proof (cases r1)
      case None
      with that f1 t1 show ?thesis by simp
    next
      case (Some es)
      with that f1 have "pick b es d1 = (out, d')" by simp
      from pick_clock [OF assms(1) this] t1 show ?thesis by simp
    qed
  qed
  show ?thesis
  proof (cases "startswith sel ''#'' \<or> startswith sel ''.''")
    case True
    show ?thesis
    proof (cases "startswith sel ''#''")
      case True
      with assms(2) show ?thesis
        by (intro one [of By_id "replace ''#'' [] sel"]) (simp add: attempt_def)
    next
      case False
      with True assms(2) show ?thesis
        by (intro one [of By_class_name "replace ''.'' [] sel"]) (simp add: attempt_def)
    qed
  next
    case False
    obtain r1 d1 where f1: "try_funcs b funcs (scope_of parent) sel els d = (r1, d1)"
      by (cases "try_funcs b funcs (scope_of parent) sel els d")
    from try_funcs_clock [OF assms(1) f1] have t1: "now b d + \<delta> \<le> now b d1"
      by (simp add: funcs_def)
    show ?thesis
    proof (cases r1)
      case None
      with False assms(2) f1 t1 show ?thesis by (simp add: attempt_def)
    next
      case (Some es)
      with False assms(2) f1 have "pick b es d1 = (out, d')" by (simp add: attempt_def)
      from pick_clock [OF assms(1) this] t1 show ?thesis by simp
    qed
  qed
qed

lemma py_int_gt: "x - 1 < of_int (py_int x)"
proof (cases "0 \<le> x")
  case True
  then show ?thesis unfolding py_int_def by simp linarith
next
  case False
  have "x \<le> of_int \<lceil>x\<rceil>" by (rule le_of_int_ceiling)
  then have "x - 1 < of_int \<lceil>x\<rceil>" by linarith
  with False show ?thesis unfolding py_int_def by simp
qed

lemma poll_ticking_induct:
  fixes D :: rat
  assumes tick: "ticking b \<delta>"
    and step: "\<And>els d. (\<And>els' d'. of_int (milli_now b d) < D \<Longrightarrow>
                  attempt b sel parent els d = (Continue els', d') \<Longrightarrow> P els' d') \<Longrightarrow> P els d"
  shows "P els d"
proof -
  have pos: "0 < \<delta>" using tick by (rule ticking_pos)
  have mul: "t * 1000 - 1 \<le> py_mul b t 1000" for t
    using tick by (simp add: ticking_def)
  have "\<exists>n. (D + 2 - 1000 * now b d) / (1000 * \<delta>) \<le> of_nat n"
    by (rule real_arch_simple)
  then obtain n where "(D + 2 - 1000 * now b d) / (1000 * \<delta>) \<le> of_nat n" ..
  with pos have "D + 2 - 1000 * now b d \<le> of_nat n * (1000 * \<delta>)"
    by (simp add: pos_divide_le_eq)
  then show ?thesis
  proof (induction n arbitrary: els d)
    case 0
    then have "D \<le> 1000 * now b d - 2" by simp
    also have "\<dots> < of_int (milli_now b d)"
      using py_int_gt [of "py_mul b (now b d) 1000"] mul [of "now b d"]
      by (simp add: milli_now_def millis_def)
    finally have "\<not> of_int (milli_now b d) < D" by simp
    then show ?case by - (rule step, simp)
  next
    case (Suc n)
    show ?case
    proof (rule step)
      fix els' d'
      assume "attempt b sel parent els d = (Continue els', d')"
      from attempt_clock [OF tick this] have "now b d + \<delta> \<le> now b d'" .
      then have "1000 * now b d + 1000 * \<delta> \<le> 1000 * now b d'" by simp
      with Suc.prems have "D + 2 - 1000 * now b d' \<le> of_nat n * (1000 * \<delta>)"
        by (simp add: algebra_simps)
      then show "P els' d'" by (rule Suc.IH)
    qed
  qed
qed

lemma poll_total:
  assumes "ticking b \<delta>"
  shows "\<exists>res d'. poll b sel parent D els d = Some (res, d')"
proof (induction els d rule: poll_ticking_induct [OF assms, where D = D and sel = sel and parent = parent])
  case (1 els d)
  show ?case
  proof (cases "of_int (milli_now b d) < D")
    case False
    then have "poll b sel parent D els d = Some (Inl (not_found sel), d)"
      by (subst poll.simps) simp
    then show ?thesis by blast
  next
    case True
    obtain out d1 where a: "attempt b sel parent els d = (out, d1)"
      by (cases "attempt b sel parent els d")
    show ?thesis
    proof (cases out)
      case (Continue els')
      with a True have "poll b sel parent D els d = poll b sel parent D els' d1"
        by (subst poll.simps) simp
      moreover from 1 [OF True] a Continue have "\<exists>res d'. poll b sel parent D els' d1 = Some (res, d')"
        by blast
      ultimately show ?thesis by simp
    next
      case (Return e)
      with a True have "poll b sel parent D els d = Some (Inr e, d1)"
        by (subst poll.simps) simp
      then show ?thesis by blast
    next
      case (Raise x)
      with a True have "poll b sel parent D els d = Some (Inl x, d1)"
        by (subst poll.simps) simp
      then show ?thesis by blast
    qed
  qed
qed

lemma try_funcs_traced_events:
  "try_funcs (traced b) fs p sel els (d, tr) = (r, (d', tr')) \<Longrightarrow>
   \<exists>T. tr' = tr @ T
      \<and> (\<forall>(t, c) \<in> set T. \<exists>k \<in> set fs. \<exists>a. c = Find k p sel a)
      \<and> (r = None \<longrightarrow> els = None \<and> (\<forall>(t, c) \<in> set T. raised c))
      \<and> (fs \<noteq> [] \<longrightarrow> T \<noteq> [] \<and> fst (hd T) = now b d
            \<and> (\<exists>a. snd (hd T) = Find (hd fs) p sel a)
            \<and> (\<forall>(t, c) \<in> set (tl T). \<exists>k \<in> set (tl fs). \<exists>a. c = Find k p sel a))"
proof (induction fs arbitrary: els d tr)
  case Nil
  then show ?case by simp
next
  case (Cons f fs)
  obtain r1 d1 where f1: "find_elements b f p sel d = (r1, d1)"
    by (cases "find_elements b f p sel d")
  let ?ev = "(now b d, Find f p sel r1)"
  show ?case
  proof (cases "\<exists>es. r1 = Some es \<and> es \<noteq> []")
    case True
    with Cons.prems f1 have "r = r1" "tr' = tr @ [?ev]"
      by (auto simp: traced_find_elements)
    with True show ?thesis
      by (intro exI [of _ "[?ev]"]) auto
  next
    case False
    define els1 where "els1 = (case r1 of None \<Rightarrow> els | Some es \<Rightarrow> Some es)"
    from False Cons.prems f1
    have rest: "try_funcs (traced b) fs p sel els1 (d1, tr @ [?ev]) = (r, (d', tr'))"
      by (cases r1) (auto simp: traced_find_elements els1_def)
    from Cons.IH [OF rest] obtain T where T:
      "tr' = (tr @ [?ev]) @ T"
      "\<forall>(t, c) \<in> set T. \<exists>k \<in> set fs. \<exists>a. c = Find k p sel a"
      "r = None \<longrightarrow> els1 = None \<and> (\<forall>(t, c) \<in> set T. raised c)"
      by blast
    have none: "r = None \<longrightarrow> els = None \<and> r1 = None"
      using T(3) by (cases r1) (auto simp: els1_def)
    show ?thesis
    proof (intro exI [of _ "?ev # T"] conjI impI)
      show "tr' = tr @ ?ev # T" using T(1) by simp
      show "\<forall>(t, c) \<in> set (?ev # T). \<exists>k \<in> set (f # fs). \<exists>a. c = Find k p sel a"
        using T(2) by auto
      show "els = None" if "r = None" using that none by simp
      show "\<forall>(t, c) \<in> set (?ev # T). raised c" if "r = None"
        using that none T(3) by auto
      show "?ev # T \<noteq> []" by simp
      show "fst (hd (?ev # T)) = now b d" by simp
      show "\<exists>a. snd (hd (?ev # T)) = Find (hd (f # fs)) p sel a" by simp
      show "\<forall>(t, c) \<in> set (tl (?ev # T)). \<exists>k \<in> set (tl (f # fs)). \<exists>a. c = Find k p sel a"
        using T(2) by simp
    qed
  qed
qed

lemma first_shown_traced_events:
  "first_shown (traced b) es (d, tr) = (r, (d', tr')) \<Longrightarrow>
   \<exists>T. tr' = tr @ T \<and> (\<forall>(t, c) \<in> set T. is_check c)
      \<and> (\<forall>e. r = Some e \<longrightarrow> T \<noteq> [] \<and> qualifies e (snd (last T)))"
proof (induction es arbitrary: d tr)
  case Nil
  then show ?case by simp
next
  case (Cons e es)
  obtain tg d1 where t1: "tag_name b e d = (tg, d1)" by (cases "tag_name b e d")
  obtain ty d2 where t2: "get_attribute b e ''type'' d1 = (ty, d2)"
    by (cases "get_attribute b e ''type'' d1")
  let ?e1 = "(now b d, Tag_name e tg)"
  let ?e2 = "(now b d1, Get_attribute e ''type'' ty)"
  show ?case
  proof (cases "lower tg = ''input''")
    case False
    with Cons.prems t1 have "r = Some e" "tr' = tr @ [?e1]"
      by (auto simp: traced_tag_name)
    with False show ?thesis
      by (intro exI [of _ "[?e1]"]) simp
  next
    case inp: True
    show ?thesis
    proof (cases "ty = Some ''hidden''")
      case False
      with inp Cons.prems t1 t2 have "r = Some e" "tr' = tr @ [?e1, ?e2]"
        by (auto simp: traced_tag_name traced_get_attribute)
      with False show ?thesis
        by (intro exI [of _ "[?e1, ?e2]"]) simp
    next
      case True
      with inp Cons.prems t1 t2
      have "first_shown (traced b) es (d2, tr @ [?e1, ?e2]) = (r, (d', tr'))"
        by (simp add: traced_tag_name traced_get_attribute)
      from Cons.IH [OF this] obtain T where T:
        "tr' = (tr @ [?e1, ?e2]) @ T" "\<forall>(t, c) \<in> set T. is_check c"
        "\<forall>e. r = Some e \<longrightarrow> T \<noteq> [] \<and> qualifies e (snd (last T))"
        by blast
      show ?thesis
      proof (intro exI [of _ "?e1 # ?e2 # T"] conjI)
        show "tr' = tr @ ?e1 # ?e2 # T" using T(1) by simp
        show "\<forall>(t, c) \<in> set (?e1 # ?e2 # T). is_check c" using T(2) by simp
        show "\<forall>ea. r = Some ea \<longrightarrow> ?e1 # ?e2 # T \<noteq> [] \<and> qualifies ea (snd (last (?e1 # ?e2 # T)))"
          using T(3) by auto
      qed
    qed
  qed
qed

lemma pick_traced_events:
  assumes "pick (traced b) es (d, tr) = (out, (d', tr'))"
  shows "\<exists>T. tr' = tr @ T \<and> (\<forall>(t, c) \<in> set T. is_check c)
      \<and> (\<forall>e. out = Return e \<longrightarrow> T \<noteq> [] \<and> qualifies e (snd (last T)))
      \<and> (\<forall>x. out \<noteq> Raise x) \<and> out \<noteq> Continue None"
proof -
  obtain r d2 tr2 where fs: "first_shown (traced b) es (d, tr) = (r, (d2, tr2))"
    by (metis surj_pair)
  from first_shown_traced_events [OF fs] obtain T where T:
    "tr2 = tr @ T" "\<forall>(t, c) \<in> set T. is_check c"
    "\<forall>e. r = Some e \<longrightarrow> T \<noteq> [] \<and> qualifies e (snd (last T))"
    by blast
  from assms fs have "tr' = tr2" "\<forall>e. out = Return e \<longrightarrow> r = Some e" "\<forall>x. out \<noteq> Raise x"
    "out \<noteq> Continue None"
    by (auto simp: pick_def split: option.splits)
  with T show ?thesis by blast
qed

lemma is_check_not_find: "is_check c \<Longrightarrow> find_args c = None"
  by (cases c) simp_all

lemma attempt_traced_pass:
  assumes "attempt (traced b) sel parent els (d, tr) = (out, (d', tr'))"
  shows "\<exists>T. tr' = tr @ T
     \<and> (\<forall>(t, c) \<in> set T. find_args c \<noteq> None \<or> is_check c)
     \<and> (\<forall>(t, c) \<in> set T. map_option fst (find_args c) = Some (first_locator sel) \<longrightarrow> t = now b d)
     \<and> (\<forall>e. out = Return e \<longrightarrow> T \<noteq> [] \<and> qualifies e (snd (last T)))
     \<and> (\<forall>x. out = Raise x \<longrightarrow> x = unbound_elements \<and> els = None
            \<and> first_locator sel = By_tag_name \<and> (\<forall>(t, c) \<in> set T. raised c))
     \<and> (out = Continue None \<longrightarrow> first_locator sel \<noteq> By_tag_name)"
    (is "\<exists>T. ?Q T")
proof -
  have one: "\<exists>T. ?Q T"
    if run: "(case find_elements (traced b) k (scope_of parent) s (d, tr) of
           (Some es, d') \<Rightarrow> pick (traced b) es d'
         | (None, d') \<Rightarrow> (Continue els, d')) = (out, (d', tr'))"
      and k: "first_locator sel = k" "k \<noteq> By_tag_name" for k s
  proof -
    obtain r1 d1 where f1: "find_elements b k (scope_of parent) s d = (r1, d1)"
      by (cases "find_elements b k (scope_of parent) s d")
    let ?ev = "(now b d, Find k (scope_of parent) s r1)"
    show ?thesis
    proof (cases r1)
      case None
      with run f1 have "out = Continue els" "tr' = tr @ [?ev]"
        by (auto simp: traced_find_elements)
      with k show ?thesis
        by (intro exI [of _ "[?ev]"]) simp
    next
      case (Some es)
      with run f1 have "pick (traced b) es (d1, tr @ [?ev]) = (out, (d', tr'))"
        by (simp add: traced_find_elements)
      from pick_traced_events [OF this] obtain T where T:
        "tr' = (tr @ [?ev]) @ T" "\<forall>(t, c) \<in> set T. is_check c"
        "\<forall>e. out = Return e \<longrightarrow> T \<noteq> [] \<and> qualifies e (snd (last T))"
        "\<forall>x. out \<noteq> Raise x" "out \<noteq> Continue None"
        by blast
      show ?thesis
      proof (intro exI [of _ "?ev # T"] conjI)
        show "tr' = tr @ ?ev # T" using T(1) by simp
        show "\<forall>(t, c) \<in> set (?ev # T). find_args c \<noteq> None \<or> is_check c"
          using T(2) by auto
        show "\<forall>(t, c) \<in> set (?ev # T).
                map_option fst (find_args c) = Some (first_locator sel) \<longrightarrow> t = now b d"
          using T(2) by (auto dest!: bspec simp: is_check_not_find)
        show "\<forall>e. out = Return e \<longrightarrow> ?ev # T \<noteq> [] \<and> qualifies e (snd (last (?ev # T)))"
          using T(3) by auto
        show "\<forall>x. out = Raise x \<longrightarrow>
                x = unbound_elements \<and> els = None \<and> first_locator sel = By_tag_name
                \<and> (\<forall>(t, c) \<in> set (?ev # T). raised c)"
          using T(4) by simp
        show "out = Continue None \<longrightarrow> first_locator sel \<noteq> By_tag_name"
          using T(5) by simp
      qed
    qed
  qed
  show ?thesis
  proof (cases "startswith sel ''#''")
    case True
    with assms show ?thesis
      by (intro one [of By_id "replace ''#'' [] sel"]) (simp_all add: attempt_def first_locator_def)
  next
    case nohash: False
    show ?thesis
    proof (cases "startswith sel ''.''")
      case True
      with nohash assms show ?thesis
        by (intro one [of By_class_name "replace ''.'' [] sel"])
           (simp_all add: attempt_def first_locator_def)
    next
      case False
      with nohash have fl: "first_locator sel = By_tag_name"
        by (simp add: first_locator_def)
      obtain r1 d1 tr1 where
        tf: "try_funcs (traced b) funcs (scope_of parent) sel els (d, tr) = (r1, (d1, tr1))"
        by (metis surj_pair)
      from try_funcs_traced_events [OF tf] obtain T1 where T1:
        "tr1 = tr @ T1"
        "\<forall>(t, c) \<in> set T1. \<exists>k \<in> set funcs. \<exists>a. c = Find k (scope_of parent) sel a"
        "r1 = None \<longrightarrow> els = None \<and> (\<forall>(t, c) \<in> set T1. raised c)"
        "T1 \<noteq> []" "fst (hd T1) = now b d"
        "\<forall>(t, c) \<in> set (tl T1). \<exists>k \<in> set (tl funcs). \<exists>a. c = Find k (scope_of parent) sel a"
        by (auto simp: funcs_def)
      have args1: "\<forall>(t, c) \<in> set T1. find_args c \<noteq> None"
        using T1(2) by fastforce
      have open0: "t = now b d"
        if in1: "(t, c) \<in> set T1" and tag: "map_option fst (find_args c) = Some By_tag_name"
        for t c
      proof -
        from T1(4) have "T1 = hd T1 # tl T1" by simp
        with in1 have "(t, c) = hd T1 \<or> (t, c) \<in> set (tl T1)"
          by (metis set_ConsD)
        then show ?thesis
        proof
          assume "(t, c) = hd T1"
          with T1(5) show ?thesis by (metis fst_conv)
        next
          assume "(t, c) \<in> set (tl T1)"
          with T1(6) obtain k a where "k \<in> set (tl funcs)" "c = Find k (scope_of parent) sel a"
            by blast
          with tag show ?thesis by (auto simp: funcs_def)
        qed
      qed
      then have open1: "\<forall>(t, c) \<in> set T1.
          map_option fst (find_args c) = Some By_tag_name \<longrightarrow> t = now b d"
        by blast
      show ?thesis
      proof (cases r1)
        case None
        with nohash False assms tf have "out = Raise unbound_elements" "tr' = tr1"
          by (auto simp: attempt_def unbound_elements_def)
        with T1 None args1 open1 fl show ?thesis
          by (intro exI [of _ T1]) auto
      next
        case (Some es)
        with nohash False assms tf have "pick (traced b) es (d1, tr1) = (out, (d', tr'))"
          by (simp add: attempt_def)
        from pick_traced_events [OF this] obtain T2 where T2:
          "tr' = tr1 @ T2" "\<forall>(t, c) \<in> set T2. is_check c"
          "\<forall>e. out = Return e \<longrightarrow> T2 \<noteq> [] \<and> qualifies e (snd (last T2))"
          "\<forall>x. out \<noteq> Raise x" "out \<noteq> Continue None"
          by blast
        show ?thesis
        proof (intro exI [of _ "T1 @ T2"] conjI)
          show "tr' = tr @ T1 @ T2" using T1(1) T2(1) by simp
          show "\<forall>(t, c) \<in> set (T1 @ T2). find_args c \<noteq> None \<or> is_check c"
            using args1 T2(2) by auto
          show "\<forall>(t, c) \<in> set (T1 @ T2).
                  map_option fst (find_args c) = Some (first_locator sel) \<longrightarrow> t = now b d"
            using open1 T2(2) fl by (auto dest!: bspec simp: is_check_not_find)
          show "\<forall>e. out = Return e \<longrightarrow> T1 @ T2 \<noteq> [] \<and> qualifies e (snd (last (T1 @ T2)))"
            using T2(3) by auto
          show "\<forall>x. out = Raise x \<longrightarrow>
                  x = unbound_elements \<and> els = None \<and> first_locator sel = By_tag_name
                  \<and> (\<forall>(t, c) \<in> set (T1 @ T2). raised c)"
            using T2(4) by simp
          show "out = Continue None \<longrightarrow> first_locator sel \<noteq> By_tag_name"
            using T2(5) by simp
        qed
      qed
    qed
  qed
qed

lemma now_traced [simp]: "now (traced b) (d, tr) = now b d"
  by (simp add: traced_def)

lemma millis_traced [simp]: "millis (traced b) t = millis b t"
  by (simp add: millis_def traced_def)

lemma milli_now_traced [simp]: "milli_now (traced b) (d, tr) = milli_now b d"
  by (simp add: milli_now_def)

lemma ticking_traced:
  assumes "ticking b \<delta>"
  shows "ticking (traced b) \<delta>"
proof -
  have "now (traced b) s = now b (fst s)" for s
    by (cases s) simp
  moreover have "fst (snd (find_elements (traced b) k p x s)) = snd (find_elements b k p x (fst s))"
    for k p x s by (cases s) (simp add: traced_def split: prod.splits)
  moreover have "fst (snd (find_element_by_xpath (traced b) x s)) = snd (find_element_by_xpath b x (fst s))"
    for x s by (cases s) (simp add: traced_def split: prod.splits)
  moreover have "fst (snd (is_displayed (traced b) e s)) = snd (is_displayed b e (fst s))"
    for e s by (cases s) (simp add: traced_def split: prod.splits)
  moreover have "fst (snd (tag_name (traced b) e s)) = snd (tag_name b e (fst s))"
    for e s by (cases s) (simp add: traced_def split: prod.splits)
  moreover have "fst (snd (get_attribute (traced b) e a s)) = snd (get_attribute b e a (fst s))"
    for e a s by (cases s) (simp add: traced_def split: prod.splits)
  moreover have "fst (sleep (traced b) r s) = sleep b r (fst s)"
    for r s by (cases s) (simp add: traced_def)
  moreover have "py_mul (traced b) = py_mul b"
    by (simp add: traced_def)
  ultimately show ?thesis
    using assms unfolding ticking_def by simp
qed

lemma poll_traced:
  fixes D :: rat
  assumes tick: "ticking b \<delta>"
  shows "\<exists>res d' T. poll (traced b) sel parent D els (d, tr) = Some (res, (d', tr @ T))
     \<and> (\<forall>(t, c) \<in> set T. find_args c \<noteq> None \<or> is_check c)
     \<and> (\<forall>(t, c) \<in> set T. map_option fst (find_args c) = Some (first_locator sel)
            \<longrightarrow> of_int (millis b t) < D)
     \<and> (\<forall>e. res = Inr e \<longrightarrow> T \<noteq> [] \<and> qualifies e (snd (last T)))
     \<and> (\<forall>x. res = Inl x \<longrightarrow>
            (x = not_found sel \<and> D \<le> of_int (milli_now b d'))
          \<or> (x = unbound_elements \<and> els = None \<and> first_locator sel = By_tag_name
               \<and> (\<forall>(t, c) \<in> set T. raised c)))"
proof -
  define P where "P = (\<lambda>els (s :: 'a \<times> event list).
     \<exists>res d' T. poll (traced b) sel parent D els s = Some (res, (d', snd s @ T))
     \<and> (\<forall>(t, c) \<in> set T. find_args c \<noteq> None \<or> is_check c)
     \<and> (\<forall>(t, c) \<in> set T. map_option fst (find_args c) = Some (first_locator sel)
            \<longrightarrow> of_int (millis b t) < D)
     \<and> (\<forall>e. res = Inr e \<longrightarrow> T \<noteq> [] \<and> qualifies e (snd (last T)))
     \<and> (\<forall>x. res = Inl x \<longrightarrow>
            (x = not_found sel \<and> D \<le> of_int (milli_now b d'))
          \<or> (x = unbound_elements \<and> els = None \<and> first_locator sel = By_tag_name
               \<and> (\<forall>(t, c) \<in> set T. raised c))))"
  have "P els (d, tr)"
  proof (induction els "(d, tr)" arbitrary: d tr
      rule: poll_ticking_induct [OF ticking_traced [OF tick], where D = D and sel = sel and parent = parent])
    case (1 els d tr)
    show ?case
    proof (cases "of_int (milli_now b d) < D")
      case False
      then have "poll (traced b) sel parent D els (d, tr) = Some (Inl (not_found sel), (d, tr))"
        by (subst poll.simps) simp
      with False show ?thesis
        unfolding P_def by (intro exI [of _ "Inl (not_found sel)"] exI [of _ d] exI [of _ "[]"]) simp
    next
      case True
      obtain out d1 tr1 where a: "attempt (traced b) sel parent els (d, tr) = (out, (d1, tr1))"
        by (metis surj_pair)
      from attempt_traced_pass [OF a] obtain T1 where T1:
        "tr1 = tr @ T1"
        "\<forall>(t, c) \<in> set T1. find_args c \<noteq> None \<or> is_check c"
        "\<forall>(t, c) \<in> set T1. map_option fst (find_args c) = Some (first_locator sel) \<longrightarrow> t = now b d"
        "\<forall>e. out = Return e \<longrightarrow> T1 \<noteq> [] \<and> qualifies e (snd (last T1))"
        "\<forall>x. out = Raise x \<longrightarrow> x = unbound_elements \<and> els = None
            \<and> first_locator sel = By_tag_name \<and> (\<forall>(t, c) \<in> set T1. raised c)"
        "out = Continue None \<longrightarrow> first_locator sel \<noteq> By_tag_name"
        by blast
      from True have "of_int (millis b (now b d)) < D"
        by (simp add: milli_now_def)
      with T1(3) have before: "\<forall>(t, c) \<in> set T1.
          map_option fst (find_args c) = Some (first_locator sel) \<longrightarrow> of_int (millis b t) < D"
        by fastforce
      show ?thesis
      proof (cases out)
        case (Return e)
        with a True have "poll (traced b) sel parent D els (d, tr) = Some (Inr e, (d1, tr1))"
          by (subst poll.simps) simp
        with T1 before Return show ?thesis
          unfolding P_def by (intro exI [of _ "Inr e"] exI [of _ d1] exI [of _ T1]) simp
      next
        case (Raise x)
        with a True have "poll (traced b) sel parent D els (d, tr) = Some (Inl x, (d1, tr1))"
          by (subst poll.simps) simp
        with T1 before Raise show ?thesis
          unfolding P_def by (intro exI [of _ "Inl x"] exI [of _ d1] exI [of _ T1]) simp
      next
        case (Continue els')
        with a True have eq: "poll (traced b) sel parent D els (d, tr)
            = poll (traced b) sel parent D els' (d1, tr1)"
          by (subst poll.simps) simp
        from True a Continue have "P els' (d1, tr1)"
          by (intro 1) simp_all
        then obtain res d' T2 where T2:
          "poll (traced b) sel parent D els' (d1, tr1) = Some (res, (d', tr1 @ T2))"
          "\<forall>(t, c) \<in> set T2. find_args c \<noteq> None \<or> is_check c"
          "\<forall>(t, c) \<in> set T2. map_option fst (find_args c) = Some (first_locator sel)
              \<longrightarrow> of_int (millis b t) < D"
          "\<forall>e. res = Inr e \<longrightarrow> T2 \<noteq> [] \<and> qualifies e (snd (last T2))"
          "\<forall>x. res = Inl x \<longrightarrow>
              (x = not_found sel \<and> D \<le> of_int (milli_now b d'))
            \<or> (x = unbound_elements \<and> els' = None \<and> first_locator sel = By_tag_name
                 \<and> (\<forall>(t, c) \<in> set T2. raised c))"
          unfolding P_def by auto
        from T2(5) T1(6) Continue
        have err: "\<forall>x. res = Inl x \<longrightarrow> x = not_found sel \<and> D \<le> of_int (milli_now b d')"
          by auto
        show ?thesis
          unfolding P_def
        proof (intro exI [of _ res] exI [of _ d'] exI [of _ "T1 @ T2"] conjI)
          show "poll (traced b) sel parent D els (d, tr) = Some (res, d', snd (d, tr) @ T1 @ T2)"
            using eq T2(1) T1(1) by simp
          show "\<forall>(t, c) \<in> set (T1 @ T2). find_args c \<noteq> None \<or> is_check c"
            using T1(2) T2(2) by auto
          show "\<forall>(t, c) \<in> set (T1 @ T2). map_option fst (find_args c) = Some (first_locator sel)
              \<longrightarrow> of_int (millis b t) < D"
            using before T2(3) by auto
          show "\<forall>e. res = Inr e \<longrightarrow> T1 @ T2 \<noteq> [] \<and> qualifies e (snd (last (T1 @ T2)))"
            using T2(4) by auto
          show "\<forall>x. res = Inl x \<longrightarrow>
              (x = not_found sel \<and> D \<le> of_int (milli_now b d'))
            \<or> (x = unbound_elements \<and> els = None \<and> first_locator sel = By_tag_name
                 \<and> (\<forall>(t, c) \<in> set (T1 @ T2). raised c))"
            using err by simp
        qed
      qed
    qed
  qed
  then show ?thesis unfolding P_def by simp
qed

lemma ticking_clockwork: "ticking (clockwork answers by_xpath tag attr shown) 1"
  by (simp add: ticking_def clockwork_def)

lemma not_sleep: "find_args c \<noteq> None \<or> is_check c \<Longrightarrow> \<not> is_sleep c"
  by (cases c) simp_all

lemma get_element_traced:
  assumes "ticking b \<delta>"
  shows "\<exists>res d' T. get_element (traced b) sel parent timeout (d, []) = Some (res, (d', T))
     \<and> (\<forall>(t, c) \<in> set T. map_option fst (find_args c) = Some (first_locator sel)
            \<longrightarrow> of_int (millis b t) < py_add b (of_int (milli_now b d)) (py_mul b timeout 1000))
     \<and> (\<forall>(t, c) \<in> set T. \<not> is_sleep c)
     \<and> (\<forall>e. res = Inr e \<longrightarrow> qualifies e (snd (last T)))
     \<and> (\<forall>x. res = Inl x \<longrightarrow>
            (x = Exn NoSuchElementException (''Could not find element matching '' @ sel)
             \<and> py_add b (of_int (milli_now b d)) (py_mul b timeout 1000) \<le> of_int (milli_now b d'))
          \<or> (x = unbound_elements \<and> first_locator sel = By_tag_name
               \<and> (\<forall>(t, c) \<in> set T. find_args c \<noteq> None \<longrightarrow> raised c)))"
proof -
  let ?D = "py_add b (of_int (milli_now b d)) (py_mul b timeout 1000)"
  let ?ev = "(now b d, Implicitly_wait 0)"
  have start: "get_element (traced b) sel parent timeout (d, [])
      = poll (traced b) sel parent ?D None (implicitly_wait b 0 d, [?ev])"
  proof -
    have "implicitly_wait (traced b) 0 (d, []) = (implicitly_wait b 0 d, [?ev])"
      by (simp add: traced_def)
    moreover have "py_mul (traced b) = py_mul b" and "py_add (traced b) = py_add b"
      by (simp_all add: traced_def)
    ultimately show ?thesis by (simp add: get_element_def)
  qed
  from poll_traced [OF assms, of sel parent ?D None "implicitly_wait b 0 d" "[?ev]"]
  obtain res d' T where T:
    "poll (traced b) sel parent ?D None (implicitly_wait b 0 d, [?ev]) = Some (res, (d', [?ev] @ T))"
    "\<forall>(t, c) \<in> set T. find_args c \<noteq> None \<or> is_check c"
    "\<forall>(t, c) \<in> set T. map_option fst (find_args c) = Some (first_locator sel)
        \<longrightarrow> of_int (millis b t) < ?D"
    "\<forall>e. res = Inr e \<longrightarrow> T \<noteq> [] \<and> qualifies e (snd (last T))"
    "\<forall>x. res = Inl x \<longrightarrow>
        (x = not_found sel \<and> ?D \<le> of_int (milli_now b d'))
      \<or> (x = unbound_elements \<and> (None :: element list option) = None
           \<and> first_locator sel = By_tag_name \<and> (\<forall>(t, c) \<in> set T. raised c))"
    by (elim exE conjE) (rule that, assumption+)
  show ?thesis
  proof (intro exI [of _ res] exI [of _ d'] exI [of _ "?ev # T"] conjI)
    show "get_element (traced b) sel parent timeout (d, []) = Some (res, d', ?ev # T)"
      using start T(1) by simp
    show "\<forall>(t, c) \<in> set (?ev # T). map_option fst (find_args c) = Some (first_locator sel)
        \<longrightarrow> of_int (millis b t) < ?D"
      using T(3) by simp
    show "\<forall>(t, c) \<in> set (?ev # T). \<not> is_sleep c"
    proof -
      have "\<not> is_sleep c" if "(t, c) \<in> set T" for t c
      proof -
        from T(2) that have "find_args c \<noteq> None \<or> is_check c" by blast
        then show ?thesis by (rule not_sleep)
      qed
      then show ?thesis by auto
    qed
    show "\<forall>e. res = Inr e \<longrightarrow> qualifies e (snd (last (?ev # T)))"
      using T(4) by simp
    show "\<forall>x. res = Inl x \<longrightarrow>
        (x = Exn NoSuchElementException (''Could not find element matching '' @ sel)
         \<and> ?D \<le> of_int (milli_now b d'))
      \<or> (x = unbound_elements \<and> first_locator sel = By_tag_name
           \<and> (\<forall>(t, c) \<in> set (?ev # T). find_args c \<noteq> None \<longrightarrow> raised c))"
    proof (intro allI impI)
      fix x
      assume "res = Inl x"
      with T(5) consider "x = not_found sel" "?D \<le> of_int (milli_now b d')"
        | "x = unbound_elements" "first_locator sel = By_tag_name" "\<forall>(t, c) \<in> set T. raised c"
        by blast
      then show "(x = Exn NoSuchElementException (''Could not find element matching '' @ sel)
         \<and> ?D \<le> of_int (milli_now b d'))
      \<or> (x = unbound_elements \<and> first_locator sel = By_tag_name
           \<and> (\<forall>(t, c) \<in> set (?ev # T). find_args c \<noteq> None \<longrightarrow> raised c))"
      proof cases
        case 1
        then show ?thesis by (simp add: not_found_def)
      next
        case 2
        then show ?thesis by auto
      qed
    qed
  qed
qed

lemma replace_hash: "replace ''#'' [] s = filter (\<lambda>c. c \<noteq> CHR ''#'') s"
proof (induction s)
  case Nil
  show ?case by simp
next
  case (Cons c s)
  show ?case
  proof (cases "c = CHR ''#''")
    case True
    then have "replace ''#'' [] (c # s) = replace ''#'' [] s"
      by (subst replace.simps) simp
    with True Cons show ?thesis by simp
  next
    case False
    then have "replace ''#'' [] (c # s) = c # replace ''#'' [] s"
      by (subst replace.simps) simp
    with False Cons show ?thesis by simp
  qed
qed

section \<open>A leading \<open>#\<close>\<close>

text \<open>
  C4. The selector \<open>#a#b\<close> names the identifier \<open>a#b\<close>. On the search page a lookup by
  that identifier finds element 3, but the resolver looks up \<open>ab\<close>: \<open>replace\<close> removes
  every \<open>#\<close> of the selector, not only the leading one. The call ends with
  \<open>NoSuchElementException\<close>.
\<close>

theorem hash_selector_loses_inner_hashes:
  "find_elements search_page By_id Driver ''a#b'' 0 = (Some [3], 1)
   \<and> get_element (traced search_page) ''#a#b'' None 1 (0, [])
       = Some (Inl (Exn NoSuchElementException ''Could not find element matching #a#b''),
               (1, [(0, Implicitly_wait 0), (0, Find By_id Driver ''ab'' (Some []))]))"
  by (simp add: get_element_def poll.simps attempt_def startswith_def scope_of_def pick_def
        traced_def search_page_def clockwork_def milli_now_def millis_def py_int_def not_found_def)

lemma first_shown_find:
  assumes "\<forall>e d. fst (tag_name b e d) = tg e"
    and "\<forall>e d. fst (get_attribute b e ''type'' d) = ty e"
  shows "fst (first_shown b es d) = List.find (\<lambda>e. \<not> hidden_input tg ty e) es"
proof (induction es arbitrary: d)
  case Nil
  show ?case by simp
next
  case (Cons e es)
  obtain t1 d1 where t1: "tag_name b e d = (t1, d1)" by (cases "tag_name b e d")
  obtain t2 d2 where t2: "get_attribute b e ''type'' d1 = (t2, d2)"
    by (cases "get_attribute b e ''type'' d1")
  from assms(1) have "fst (tag_name b e d) = tg e" by blast
  with t1 have tg: "tg e = t1" by simp
  from assms(2) have "fst (get_attribute b e ''type'' d1) = ty e" by blast
  with t2 have ty: "ty e = t2" by simp
  show ?case
    using Cons [of d2] t1 t2 tg ty by (simp add: hidden_input_def)
qed

lemma pick_find:
  assumes "\<forall>e d. fst (tag_name b e d) = tg e"
    and "\<forall>e d. fst (get_attribute b e ''type'' d) = ty e"
  shows "fst (pick b es d) =
     (case List.find (\<lambda>e. \<not> hidden_input tg ty e) es of
        Some e \<Rightarrow> Return e
      | None \<Rightarrow> Continue (Some es))"
  using first_shown_find [OF assms, of es d]
  by (cases "first_shown b es d") (auto simp: pick_def split: option.splits)

lemma attempt_return_pick:
  assumes "fst (attempt b sel parent els d) = Return e"
  shows "\<exists>es d1. fst (pick b es d1) = Return e"
proof -
  have one: ?thesis
    if "fst (case r of (Some es, d') \<Rightarrow> pick b es d' | (None, d') \<Rightarrow> (x, d')) = Return e"
      and "x \<noteq> Return e" for r x
  proof (cases r)
    case (Pair r1 d1)
    with that show ?thesis by (cases r1) auto
  qed
  show ?thesis
  proof (cases "startswith sel ''#''")
    case True
    with assms show ?thesis
      by (intro one [where r = "find_elements b By_id (scope_of parent) (replace ''#'' [] sel) d"
              and x = "Continue els"])
         (simp_all add: attempt_def)
  next
    case nohash: False
    show ?thesis
    proof (cases "startswith sel ''.''")
      case True
      with nohash assms show ?thesis
        by (intro one [where r = "find_elements b By_class_name (scope_of parent) (replace ''.'' [] sel) d"
              and x = "Continue els"])
           (simp_all add: attempt_def)
    next
      case False
      with nohash assms show ?thesis
        by (intro one [where r = "try_funcs b funcs (scope_of parent) sel els d"
              and x = "Raise (Exn UnboundLocalError
                  ''local variable 'elements' referenced before assignment'')"])
           (simp_all add: attempt_def)
    qed
  qed
qed

lemma attempt_never_hidden:
  assumes "\<forall>e d. fst (tag_name b e d) = tg e"
    and "\<forall>e d. fst (get_attribute b e ''type'' d) = ty e"
    and "fst (attempt b sel parent els d) = Return e"
  shows "\<not> hidden_input tg ty e"
proof -
  from attempt_return_pick [OF assms(3)]
  obtain es d1 where "fst (pick b es d1) = Return e" by blast
  with pick_find [OF assms(1,2), of es d1]
  have "List.find (\<lambda>e. \<not> hidden_input tg ty e) es = Some e"
    by (cases "List.find (\<lambda>e. \<not> hidden_input tg ty e) es") simp_all
  then show ?thesis by (auto simp: find_Some_iff)
qed

lemma try_funcs_all:
  assumes hyp: "\<forall>k d. \<exists>es. fst (find_elements b k p sel d) = Some es \<and> (\<forall>e \<in> set es. H e)"
  shows "fs \<noteq> [] \<or> (\<exists>es. els = Some es \<and> (\<forall>e \<in> set es. H e)) \<Longrightarrow>
     \<exists>es. fst (try_funcs b fs p sel els d) = Some es \<and> (\<forall>e \<in> set es. H e)"
proof (induction fs arbitrary: els d)
  case Nil
  then show ?case by simp
next
  case (Cons f fs)
  from hyp obtain es where es: "fst (find_elements b f p sel d) = Some es" "\<forall>e \<in> set es. H e"
    by blast
  then obtain d1 where f1: "find_elements b f p sel d = (Some es, d1)"
    by (cases "find_elements b f p sel d") simp
  show ?case
  proof (cases "es = []")
    case False
    with f1 es(2) show ?thesis by simp
  next
    case True
    with es(2) have "\<exists>es'. fst (try_funcs b fs p sel (Some es) d1) = Some es' \<and> (\<forall>e \<in> set es'. H e)"
      by (intro Cons.IH) simp
    with f1 True show ?thesis by simp
  qed
qed

lemma attempt_all_hidden:
  assumes tags: "\<forall>e d. fst (tag_name b e d) = tg e"
    and types: "\<forall>e d. fst (get_attribute b e ''type'' d) = ty e"
    and hyp: "\<forall>k d. \<forall>s \<in> {sel, replace ''#'' [] sel, replace ''.'' [] sel}.
        \<exists>es. fst (find_elements b k (scope_of parent) s d) = Some es
           \<and> (\<forall>e \<in> set es. hidden_input tg ty e)"
  shows "\<exists>es. fst (attempt b sel parent els d) = Continue (Some es)"
proof -
  have none: "List.find (\<lambda>e. \<not> hidden_input tg ty e) es = None"
    if "\<forall>e \<in> set es. hidden_input tg ty e" for es
    using that by (simp add: find_None_iff)
  have cont: "fst (pick b es d1) = Continue (Some es)"
    if "\<forall>e \<in> set es. hidden_input tg ty e" for es d1
    using pick_find [OF tags types, of es d1] none [OF that] by simp
  have one: "\<exists>es. fst (case find_elements b k (scope_of parent) s d of
           (Some es, d') \<Rightarrow> pick b es d'
         | (None, d') \<Rightarrow> (Continue els, d')) = Continue (Some es)"
    if "s \<in> {sel, replace ''#'' [] sel, replace ''.'' [] sel}" for k s
  proof -
    from hyp that obtain es where es:
      "fst (find_elements b k (scope_of parent) s d) = Some es" "\<forall>e \<in> set es. hidden_input tg ty e"
      by blast
    then obtain d1 where "find_elements b k (scope_of parent) s d = (Some es, d1)"
      by (cases "find_elements b k (scope_of parent) s d") simp
    with cont [OF es(2), of d1] show ?thesis by simp
  qed
  show ?thesis
  proof (cases "startswith sel ''#''")
    case True
    with one [of "replace ''#'' [] sel" By_id] show ?thesis
      by (simp add: attempt_def)
  next
    case nohash: False
    show ?thesis
    proof (cases "startswith sel ''.''")
      case True
      with nohash one [of "replace ''.'' [] sel" By_class_name] show ?thesis
        by (simp add: attempt_def)
    next
      case False
      from hyp have "\<forall>k d. \<exists>es. fst (find_elements b k (scope_of parent) sel d) = Some es
          \<and> (\<forall>e \<in> set es. hidden_input tg ty e)"
        by blast
      from try_funcs_all [OF this, of funcs els d]
      obtain es where es: "fst (try_funcs b funcs (scope_of parent) sel els d) = Some es"
        "\<forall>e \<in> set es. hidden_input tg ty e"
        by (auto simp: funcs_def)
      then obtain d1 where "try_funcs b funcs (scope_of parent) sel els d = (Some es, d1)"
        by (cases "try_funcs b funcs (scope_of parent) sel els d") simp
      with nohash False cont [OF es(2), of d1] show ?thesis
        by (simp add: attempt_def)
    qed
  qed
qed

lemma poll_all_hidden:
  fixes D :: rat
  assumes tick: "ticking b \<delta>"
    and tags: "\<forall>e d. fst (tag_name b e d) = tg e"
    and types: "\<forall>e d. fst (get_attribute b e ''type'' d) = ty e"
    and hyp: "\<forall>k d. \<forall>s \<in> {sel, replace ''#'' [] sel, replace ''.'' [] sel}.
        \<exists>es. fst (find_elements b k (scope_of parent) s d) = Some es
           \<and> (\<forall>e \<in> set es. hidden_input tg ty e)"
  shows "\<exists>d'. poll b sel parent D els d = Some (Inl (not_found sel), d')
      \<and> D \<le> of_int (milli_now b d')"
proof (induction els d rule: poll_ticking_induct [OF tick, where D = D and sel = sel and parent = parent])
  case (1 els d)
  show ?case
  proof (cases "of_int (milli_now b d) < D")
    case False
    then have "poll b sel parent D els d = Some (Inl (not_found sel), d)"
      by (subst poll.simps) simp
    with False show ?thesis by simp
  next
    case True
    from attempt_all_hidden [OF tags types hyp, of els d]
    obtain es d1 where a: "attempt b sel parent els d = (Continue (Some es), d1)"
      by (cases "attempt b sel parent els d") auto
    with True have "poll b sel parent D els d = poll b sel parent D (Some es) d1"
      by (subst poll.simps) simp
    with 1 [OF True a] show ?thesis by simp
  qed
qed

lemma try_funcs_None:
  "fst (try_funcs b fs p sel els d) = None \<Longrightarrow> fs \<noteq> [] \<Longrightarrow>
     \<exists>k d0. fst (find_elements b k p sel d0) = None"
proof (induction fs arbitrary: els d)
  case Nil
  then show ?case by simp
next
  case (Cons f fs)
  obtain r1 d1 where f1: "find_elements b f p sel d = (r1, d1)"
    by (cases "find_elements b f p sel d")
  show ?case
  proof (cases r1)
    case None
    with f1 have "fst (find_elements b f p sel d) = None" by simp
    then show ?thesis by blast
  next
    case (Some es)
    show ?thesis
    proof (cases "es = []")
      case False
      with Some f1 Cons.prems(1) show ?thesis by simp
    next
      case True
      with Some f1 Cons.prems(1) have rest: "fst (try_funcs b fs p sel (Some es) d1) = None"
        by simp
      show ?thesis
      proof (cases "fs = []")
        case True
        with rest show ?thesis by simp
      next
        case False
        from Cons.IH [OF rest False] show ?thesis .
      qed
    qed
  qed
qed

lemma attempt_Raise:
  assumes "attempt b sel parent els d = (Raise x, d')"
  shows "x = unbound_elements \<and> (\<exists>k d0. fst (find_elements b k (scope_of parent) sel d0) = None)"
proof -
  have pick_no: "pick b es d1 \<noteq> (Raise x, d')" for es d1
    by (cases "first_shown b es d1") (auto simp: pick_def split: option.splits)
  have one: False
    if "(case r of (Some es, d') \<Rightarrow> pick b es d' | (None, d') \<Rightarrow> (Continue els, d')) = (Raise x, d')"
    for r
  proof (cases r)
    case (Pair r1 d1)
    with that pick_no show ?thesis by (cases r1) auto
  qed
  show ?thesis
  proof (cases "startswith sel ''#''")
    case True
    with assms one [of "find_elements b By_id (scope_of parent) (replace ''#'' [] sel) d"]
    show ?thesis by (simp add: attempt_def)
  next
    case nohash: False
    show ?thesis
    proof (cases "startswith sel ''.''")
      case True
      with nohash assms one [of "find_elements b By_class_name (scope_of parent) (replace ''.'' [] sel) d"]
      show ?thesis by (simp add: attempt_def)
    next
      case False
      obtain r1 d1 where tf: "try_funcs b funcs (scope_of parent) sel els d = (r1, d1)"
        by (cases "try_funcs b funcs (scope_of parent) sel els d")
      show ?thesis
      proof (cases r1)
        case None
        with tf have "fst (try_funcs b funcs (scope_of parent) sel els d) = None" by simp
        from try_funcs_None [OF this]
        have "\<exists>k d0. fst (find_elements b k (scope_of parent) sel d0) = None"
          by (simp add: funcs_def)
        moreover from nohash False assms tf None have "x = unbound_elements"
          by (simp add: attempt_def unbound_elements_def)
        ultimately show ?thesis by simp
      next
        case (Some es)
        with nohash False assms tf pick_no [of es d1] show ?thesis
          by (simp add: attempt_def)
      qed
    qed
  qed
qed

lemma poll_error:
  assumes run: "poll b sel parent D els d = Some y"
  shows "\<forall>x. fst y = Inl x \<longrightarrow>
     x = not_found sel
     \<or> (x = unbound_elements \<and> (\<exists>k d0. fst (find_elements b k (scope_of parent) sel d0) = None))"
proof (rule poll.raw_induct [OF _ run, where P = "\<lambda>b sel parent D els d y.
     \<forall>x. fst y = Inl x \<longrightarrow>
       x = not_found sel
       \<or> (x = unbound_elements \<and> (\<exists>k d0. fst (find_elements b k (scope_of parent) sel d0) = None))"],
    goal_cases)
  case (1 f b sel parent D els d y)
  show ?case
  proof (cases "of_int (milli_now b d) < D")
    case False
    with 1(2) show ?thesis by auto
  next
    case True
    obtain out d1 where a: "attempt b sel parent els d = (out, d1)"
      by (cases "attempt b sel parent els d")
    show ?thesis
    proof (cases out)
      case (Return e)
      with 1(2) True a show ?thesis by auto
    next
      case (Continue els')
      with 1(2) True a have "f b sel parent D els' d1 = Some y" by simp
      then show ?thesis by (rule 1(1))
    next
      case (Raise x)
      with a have "attempt b sel parent els d = (Raise x, d1)" by simp
      from attempt_Raise [OF this] 1(2) True a Raise show ?thesis by auto
    qed
  qed
qed

lemma get_element_error:
  assumes "get_element b sel parent timeout d = Some (Inl x, d')"
  shows "x = not_found sel
     \<or> (x = unbound_elements \<and> (\<exists>k d0. fst (find_elements b k (scope_of parent) sel d0) = None))"
proof -
  from assms have "poll b sel parent (py_add b (of_int (milli_now b d)) (py_mul b timeout 1000)) None
      (implicitly_wait b 0 d) = Some (Inl x, d')"
    by (simp add: get_element_def)
  from poll_error [OF this] show ?thesis by simp
qed

section \<open>\<open>assert_element\<close> never fails the test\<close>

text \<open>
  C10. Whatever \<open>assert_element\<close> ends with, it is not \<open>GhostlyTestFailed\<close>: it ends as the
  resolver ends, called with the selector, the driver as scope and ten seconds, after
  the one second sleep. An error is the resolver's error, and an element the resolver
  returns is true, so the \<open>raise\<close> after \<open>if not element\<close> is never reached. On a driver
  whose lookups for the selector never raise the only error is \<open>NoSuchElementException\<close> with the
  resolver's message.
\<close>

theorem assert_element_fails_as_the_resolver:
  assumes "assert_element b sel d = Some (res, d')"
  shows "(\<forall>m. res \<noteq> Inl (Exn GhostlyTestFailed m))
     \<and> (\<exists>r. get_element b sel None 10 (sleep b 1 d) = Some (r, d')
            \<and> (case r of Inl x \<Rightarrow> res = Inl x | Inr e \<Rightarrow> truthy e \<and> res = Inr ()))
     \<and> ((\<forall>k d0. fst (find_elements b k Driver sel d0) \<noteq> None) \<longrightarrow>
            res = Inr ()
          \<or> res = Inl (Exn NoSuchElementException (''Could not find element matching '' @ sel)))"
proof -
  obtain r where r: "get_element b sel None 10 (sleep b 1 d) = Some (r, d')"
    and res: "case r of Inl x \<Rightarrow> res = Inl x | Inr e \<Rightarrow> truthy e \<and> res = Inr ()"
  proof (cases "get_element b sel None 10 (sleep b 1 d)")
    case None
    with assms show ?thesis by (simp add: assert_element_def wait_def)
  next
    case (Some a)
    obtain r0 d0 where "a = (r0, d0)" by (cases a)
    with Some assms that [of r0] show ?thesis
      by (cases r0) (simp_all add: assert_element_def wait_def truthy_def)
  qed
  have err: "x = not_found sel
     \<or> (x = unbound_elements \<and> (\<exists>k d0. fst (find_elements b k Driver sel d0) = None))"
    if "res = Inl x" for x
  proof -
    from that res have "r = Inl x" by (cases r) simp_all
    with r get_element_error [of b sel None 10 "sleep b 1 d" x d'] show ?thesis
      by (simp add: scope_of_def)
  qed
  show ?thesis
  proof (intro conjI allI impI)
    fix m
    show "res \<noteq> Inl (Exn GhostlyTestFailed m)"
      using err [of "Exn GhostlyTestFailed m"] by (auto simp: not_found_def unbound_elements_def)
  next
    show "\<exists>r. get_element b sel None 10 (sleep b 1 d) = Some (r, d')
            \<and> (case r of Inl x \<Rightarrow> res = Inl x | Inr e \<Rightarrow> truthy e \<and> res = Inr ())"
      using r res by blast
  next
    assume total: "\<forall>k d0. fst (find_elements b k Driver sel d0) \<noteq> None"
    show "res = Inr () \<or> res = Inl (Exn NoSuchElementException (''Could not find element matching '' @ sel))"
    proof (cases res)
      case (Inl x)
      with err [of x] total show ?thesis by (auto simp: not_found_def)
    next
      case (Inr u)
      then show ?thesis by simp
    qed
  qed
qed

theorem assert_element_fails_as_the_resolver_witness:
  "assert_element blank ''#missing'' 0
     = Some (Inl (Exn NoSuchElementException ''Could not find element matching #missing''), 11)
   \<and> get_element blank ''#missing'' None 10 (sleep blank 1 0)
     = Some (Inl (Exn NoSuchElementException ''Could not find element matching #missing''), 11)
   \<and> (\<forall>k d0. fst (find_elements blank k Driver ''#missing'' d0) \<noteq> None)"
proof -
  have total: "\<forall>k d0. fst (find_elements blank k Driver ''#missing'' d0) \<noteq> None"
    by (simp add: blank_def clockwork_def)
  have run: "assert_element blank ''#missing'' 0
     = Some (Inl (Exn NoSuchElementException ''Could not find element matching #missing''), 11)"
    by code_simp
  from assert_element_fails_as_the_resolver [OF run]
  obtain r where r: "get_element blank ''#missing'' None 10 (sleep blank 1 0) = Some (r, 11)"
    and c: "case r of
        Inl x \<Rightarrow>
          (Inl (Exn NoSuchElementException ''Could not find element matching #missing'') :: exn + unit)
            = Inl x
      | Inr e \<Rightarrow> truthy e
          \<and> (Inl (Exn NoSuchElementException ''Could not find element matching #missing'') :: exn + unit)
              = Inr ()"
    by (elim conjE exE) (rule that, assumption+)
  from c have "r = Inl (Exn NoSuchElementException ''Could not find element matching #missing'')"
    by (cases r) simp_all
  with r run total show ?thesis by simp
qed

lemma wait_Num: "wait b (Num r) d = Inr (sleep b r d)"
  by (simp add: wait_def)

lemma assert_value_outcome:
  assumes "get_element b sel None 10 (sleep b 1 d) = Some (Inr e, d2)"
  shows "assert_value b sel v d =
     (if fst (get_attribute b e ''value'' d2) = Some v
      then Some (Inr (), snd (get_attribute b e ''value'' d2))
      else Some (Inl (Exn GhostlyTestFailed
                   (format_opt (fst (get_attribute b e ''value'' (snd (get_attribute b e ''value'' d2))))
                      @ '' != '' @ v)),
                 snd (get_attribute b e ''value'' (snd (get_attribute b e ''value'' d2)))))"
  using assms by (simp add: assert_value_def wait_Num split: prod.splits)

lemma assert_text_outcome:
  assumes "get_element b sel None 10 (sleep b 1 d) = Some (Inr e, d2)"
  shows "assert_text b text sel d =
     (if contains (fst (element_text b e d2)) text
      then Some (Inr (), snd (element_text b e d2))
      else Some (Inl (Exn GhostlyTestFailed
                   (text @ '' not in '' @ fst (element_text b e (snd (element_text b e d2))))),
                 snd (element_text b e (snd (element_text b e d2)))))"
  using assms by (simp add: assert_text_def wait_Num split: prod.splits)

lemma assert_title_outcome:
  "assert_title b v d =
     (if fst (title b (sleep b 1 d)) = v
      then (Inr (), snd (title b (sleep b 1 d)))
      else (Inl (Exn GhostlyTestFailed
              (''title is '' @ fst (title b (snd (title b (sleep b 1 d)))) @ '' not '' @ v)),
            snd (title b (snd (title b (sleep b 1 d))))))"
  by (simp add: assert_title_def wait_Num split: prod.splits)

lemma assert_url_outcome:
  "assert_url b url d =
     (if fst (current_url b (sleep b 1 d)) = url
      then (Inr (), snd (current_url b (sleep b 1 d)))
      else (Inl (Exn GhostlyTestFailed
              (''url is '' @ fst (current_url b (snd (current_url b (sleep b 1 d)))) @ '' not '' @ url)),
            snd (current_url b (snd (current_url b (sleep b 1 d))))))"
  by (simp add: assert_url_def wait_Num split: prod.splits)

section \<open>What a failed assertion raises\<close>

text \<open>
  C8. \<open>assert_value\<close> on the visible input of the search page succeeds for its value
  \<open>Hello World\<close> and raises \<open>GhostlyTestFailed\<close>, naming both values, for another one;
  \<open>assert_title\<close> does the same for the title. \<open>assert_element\<close> with a selector that
  matches nothing sleeps its second, polls for ten more, and ends with the resolver's
  \<open>NoSuchElementException\<close>, not with \<open>GhostlyTestFailed\<close>.
\<close>

theorem assert_element_mismatch_is_not_found:
  "assert_value search_page ''input'' ''Hello World'' 0 = Some (Inr (), 2)
   \<and> assert_value search_page ''input'' ''Bye'' 0
       = Some (Inl (Exn GhostlyTestFailed ''Hello World != Bye''), 2)
   \<and> assert_title search_page ''another title'' 0
       = (Inl (Exn GhostlyTestFailed ''title is a title not another title''), 1)
   \<and> assert_element search_page ''.missing'' 0
       = Some (Inl (Exn NoSuchElementException ''Could not find element matching .missing''), 11)"
  by code_simp

lemma poll_returns_if:
  "fruitless b sel parent D n els d = Some (els', dn) \<Longrightarrow>
   of_int (milli_now b dn) < D \<Longrightarrow>
   attempt b sel parent els' dn = (Return e, d') \<Longrightarrow>
   poll b sel parent D els d = Some (Inr e, d')"
proof (induction n arbitrary: els d)
  case 0
  then show ?case by (subst poll.simps) simp
next
  case (Suc n)
  from Suc.prems(1) have before: "of_int (milli_now b d) < D"
    by (simp split: if_splits)
  obtain out d1 where a: "attempt b sel parent els d = (out, d1)"
    by (cases "attempt b sel parent els d")
  with Suc.prems(1) before obtain els1 where out: "out = Continue els1"
    and rest: "fruitless b sel parent D n els1 d1 = Some (els', dn)"
    by (cases out) simp_all
  from before a out have "poll b sel parent D els d = poll b sel parent D els1 d1"
    by (subst poll.simps) simp
  with Suc.IH [OF rest Suc.prems(2,3)] show ?case by simp
qed

lemma poll_returns_only_if:
  assumes run: "poll b sel parent D els d = Some y"
  shows "\<forall>e d'. y = (Inr e, d') \<longrightarrow>
     (\<exists>n els' dn. fruitless b sel parent D n els d = Some (els', dn)
        \<and> of_int (milli_now b dn) < D
        \<and> attempt b sel parent els' dn = (Return e, d'))"
proof (rule poll.raw_induct [OF _ run, where P = "\<lambda>b sel parent D els d y.
     \<forall>e d'. y = (Inr e, d') \<longrightarrow>
       (\<exists>n els' dn. fruitless b sel parent D n els d = Some (els', dn)
          \<and> of_int (milli_now b dn) < D
          \<and> attempt b sel parent els' dn = (Return e, d'))"],
    goal_cases)
  case (1 f b sel parent D els d y)
  show ?case
  proof (intro allI impI)
    fix e d'
    assume y: "y = (Inr e, d')"
    show "\<exists>n els' dn. fruitless b sel parent D n els d = Some (els', dn)
          \<and> of_int (milli_now b dn) < D
          \<and> attempt b sel parent els' dn = (Return e, d')"
    proof (cases "of_int (milli_now b d) < D")
      case False
      with 1(2) y show ?thesis by simp
    next
      case True
      obtain out d1 where a: "attempt b sel parent els d = (out, d1)"
        by (cases "attempt b sel parent els d")
      show ?thesis
      proof (cases out)
        case (Return e1)
        with 1(2) True a y have "e1 = e" "d1 = d'" by simp_all
        with Return a True have "fruitless b sel parent D 0 els d = Some (els, d)
            \<and> of_int (milli_now b d) < D \<and> attempt b sel parent els d = (Return e, d')"
          by simp
        then show ?thesis by blast
      next
        case (Raise x)
        with 1(2) True a y show ?thesis by simp
      next
        case (Continue els1)
        with 1(2) True a have "f b sel parent D els1 d1 = Some y" by simp
        from 1(1) [OF this] y obtain n els' dn where
          n: "fruitless b sel parent D n els1 d1 = Some (els', dn)"
            "of_int (milli_now b dn) < D" "attempt b sel parent els' dn = (Return e, d')"
          by blast
        from n(1) True a Continue
        have "fruitless b sel parent D (Suc n) els d = Some (els', dn)" by simp
        with n(2,3) show ?thesis by blast
      qed
    qed
  qed
qed

lemma get_element_returns_iff:
  "get_element b sel parent timeout d = Some (Inr e, d') \<longleftrightarrow>
     (\<exists>n els dn.
        fruitless b sel parent (py_add b (of_int (milli_now b d)) (py_mul b timeout 1000)) n
          None (implicitly_wait b 0 d) = Some (els, dn)
        \<and> of_int (milli_now b dn) < py_add b (of_int (milli_now b d)) (py_mul b timeout 1000)
        \<and> attempt b sel parent els dn = (Return e, d'))"
proof
  assume "get_element b sel parent timeout d = Some (Inr e, d')"
  then have "poll b sel parent (py_add b (of_int (milli_now b d)) (py_mul b timeout 1000)) None
      (implicitly_wait b 0 d) = Some (Inr e, d')"
    by (simp add: get_element_def)
  from poll_returns_only_if [OF this]
  show "\<exists>n els dn.
        fruitless b sel parent (py_add b (of_int (milli_now b d)) (py_mul b timeout 1000)) n
          None (implicitly_wait b 0 d) = Some (els, dn)
        \<and> of_int (milli_now b dn) < py_add b (of_int (milli_now b d)) (py_mul b timeout 1000)
        \<and> attempt b sel parent els dn = (Return e, d')"
    by simp
next
  assume "\<exists>n els dn.
        fruitless b sel parent (py_add b (of_int (milli_now b d)) (py_mul b timeout 1000)) n
          None (implicitly_wait b 0 d) = Some (els, dn)
        \<and> of_int (milli_now b dn) < py_add b (of_int (milli_now b d)) (py_mul b timeout 1000)
        \<and> attempt b sel parent els dn = (Return e, d')"
  then obtain n els dn where
    "fruitless b sel parent (py_add b (of_int (milli_now b d)) (py_mul b timeout 1000)) n
          None (implicitly_wait b 0 d) = Some (els, dn)"
    "of_int (milli_now b dn) < py_add b (of_int (milli_now b d)) (py_mul b timeout 1000)"
    "attempt b sel parent els dn = (Return e, d')"
    by blast
  from poll_returns_if [OF this]
  show "get_element b sel parent timeout d = Some (Inr e, d')"
    by (simp add: get_element_def)
qed

lemma get_element_total:
  assumes "ticking b \<delta>"
  shows "\<exists>res d'. get_element b sel parent timeout d = Some (res, d')"
  using poll_total [OF assms] by (simp add: get_element_def)

section \<open>The resolver polls until its deadline\<close>

text \<open>
  C1. Take a driver whose lookups each take at least some fixed time. Every call of the
  resolver returns, on the driver and on the recording driver. The deadline is the clock
  reading at the start plus the timeout, both in milliseconds; it is computed once and
  every pass is judged against it: each lookup that opens a pass is issued while the
  clock reads less than the deadline, so no pass starts once it has passed. Only the
  start of a pass is bounded: a pass that has begun is carried through, so its later
  lookups and reads, and the end of the call, may fall after the deadline. The record
  holds no sleep. When the call returns an element, the last thing it did was the read
  that showed this element not to be a hidden input. When it raises, then either the
  error is \<open>NoSuchElementException\<close> with the message \<open>Could not find element matching\<close>
  followed by the selector and the clock has reached the deadline, or the selector is
  unprefixed, every lookup of the call raised, and the error is the \<open>UnboundLocalError\<close>
  of reading \<open>elements\<close>.

  The call returns the element \<open>e\<close> and ends in the state \<open>d'\<close> exactly when, after some
  number of passes that each began before the deadline and yielded nothing, the next
  pass begins before the deadline, yields \<open>e\<close> and ends in \<open>d'\<close>: the first pass that
  yields an element ends the call, with that element and with nothing done after it.
\<close>

theorem resolver_polls_until_deadline:
  assumes "ticking b \<delta>"
  shows "(\<exists>res d' T. get_element (traced b) sel parent timeout (d, []) = Some (res, (d', T))
     \<and> (\<forall>(t, c) \<in> set T. map_option fst (find_args c) = Some (first_locator sel)
            \<longrightarrow> of_int (millis b t) < py_add b (of_int (milli_now b d)) (py_mul b timeout 1000))
     \<and> (\<forall>(t, c) \<in> set T. \<not> is_sleep c)
     \<and> (\<forall>e. res = Inr e \<longrightarrow> qualifies e (snd (last T)))
     \<and> (\<forall>x. res = Inl x \<longrightarrow>
            (x = Exn NoSuchElementException (''Could not find element matching '' @ sel)
             \<and> py_add b (of_int (milli_now b d)) (py_mul b timeout 1000) \<le> of_int (milli_now b d'))
          \<or> (x = unbound_elements \<and> first_locator sel = By_tag_name
               \<and> (\<forall>(t, c) \<in> set T. find_args c \<noteq> None \<longrightarrow> raised c))))
   \<and> (\<exists>res d'. get_element b sel parent timeout d = Some (res, d'))
   \<and> (\<forall>e d'. get_element b sel parent timeout d = Some (Inr e, d') \<longleftrightarrow>
         (\<exists>n els dn.
            fruitless b sel parent (py_add b (of_int (milli_now b d)) (py_mul b timeout 1000)) n
              None (implicitly_wait b 0 d) = Some (els, dn)
            \<and> of_int (milli_now b dn) < py_add b (of_int (milli_now b d)) (py_mul b timeout 1000)
            \<and> attempt b sel parent els dn = (Return e, d')))"
proof (intro conjI allI)
  show "\<exists>res d' T. get_element (traced b) sel parent timeout (d, []) = Some (res, (d', T))
     \<and> (\<forall>(t, c) \<in> set T. map_option fst (find_args c) = Some (first_locator sel)
            \<longrightarrow> of_int (millis b t) < py_add b (of_int (milli_now b d)) (py_mul b timeout 1000))
     \<and> (\<forall>(t, c) \<in> set T. \<not> is_sleep c)
     \<and> (\<forall>e. res = Inr e \<longrightarrow> qualifies e (snd (last T)))
     \<and> (\<forall>x. res = Inl x \<longrightarrow>
            (x = Exn NoSuchElementException (''Could not find element matching '' @ sel)
             \<and> py_add b (of_int (milli_now b d)) (py_mul b timeout 1000) \<le> of_int (milli_now b d'))
          \<or> (x = unbound_elements \<and> first_locator sel = By_tag_name
               \<and> (\<forall>(t, c) \<in> set T. find_args c \<noteq> None \<longrightarrow> raised c)))"
    by (rule get_element_traced [OF assms])
next
  show "\<exists>res d'. get_element b sel parent timeout d = Some (res, d')"
    by (rule get_element_total [OF assms])
next
  fix e d'
  show "get_element b sel parent timeout d = Some (Inr e, d') \<longleftrightarrow>
         (\<exists>n els dn.
            fruitless b sel parent (py_add b (of_int (milli_now b d)) (py_mul b timeout 1000)) n
              None (implicitly_wait b 0 d) = Some (els, dn)
            \<and> of_int (milli_now b dn) < py_add b (of_int (milli_now b d)) (py_mul b timeout 1000)
            \<and> attempt b sel parent els dn = (Return e, d'))"
    by (rule get_element_returns_iff)
qed

theorem resolver_polls_until_deadline_witness:
  "ticking late_link 1
   \<and> get_element (traced late_link) ''#late'' None 10 (0, [])
       = Some (Inr 6, (3, [(0, Implicitly_wait 0),
                           (0, Find By_id Driver ''late'' (Some [])),
                           (1, Find By_id Driver ''late'' (Some [])),
                           (2, Find By_id Driver ''late'' (Some [6])),
                           (3, Tag_name 6 ''a'')]))
   \<and> get_element (traced search_page) ''zzz'' None 1 (0, [])
       = Some (Inl (Exn NoSuchElementException ''Could not find element matching zzz''),
               (5, [(0, Implicitly_wait 0),
                    (0, Find By_tag_name Driver ''zzz'' (Some [])),
                    (1, Find By_name Driver ''zzz'' (Some [])),
                    (2, Find By_id Driver ''zzz'' (Some [])),
                    (3, Find By_css_selector Driver ''zzz'' (Some [])),
                    (4, Find By_link_text Driver ''zzz'' (Some []))]))
   \<and> (\<exists>n els dn. fruitless late_link ''#late'' None 10000 n None 0 = Some (els, dn)
          \<and> of_int (milli_now late_link dn) < (10000 :: rat)
          \<and> attempt late_link ''#late'' None els dn = (Return 6, 3))"
proof -
  have tick: "ticking late_link 1"
    unfolding late_link_def by (rule ticking_clockwork)
  have late: "get_element (traced late_link) ''#late'' None 10 (0, [])
       = Some (Inr 6, (3, [(0, Implicitly_wait 0),
                           (0, Find By_id Driver ''late'' (Some [])),
                           (1, Find By_id Driver ''late'' (Some [])),
                           (2, Find By_id Driver ''late'' (Some [6])),
                           (3, Tag_name 6 ''a'')]))"
    by code_simp
  have zzz: "get_element (traced search_page) ''zzz'' None 1 (0, [])
       = Some (Inl (Exn NoSuchElementException ''Could not find element matching zzz''),
               (5, [(0, Implicitly_wait 0),
                    (0, Find By_tag_name Driver ''zzz'' (Some [])),
                    (1, Find By_name Driver ''zzz'' (Some [])),
                    (2, Find By_id Driver ''zzz'' (Some [])),
                    (3, Find By_css_selector Driver ''zzz'' (Some [])),
                    (4, Find By_link_text Driver ''zzz'' (Some []))]))"
    by code_simp
  have run: "get_element late_link ''#late'' None 10 0 = Some (Inr 6, 3)"
    by code_simp
  have D: "py_add late_link (of_int (milli_now late_link 0)) (py_mul late_link 10 1000) = 10000"
    by (simp add: late_link_def clockwork_def milli_now_def millis_def py_int_def)
  have iw: "implicitly_wait late_link 0 0 = 0"
    by (simp add: late_link_def clockwork_def)
  from resolver_polls_until_deadline [OF tick, where sel = "''#late''" and parent = None
      and timeout = 10 and d = 0]
  have "get_element late_link ''#late'' None 10 0 = Some (Inr 6, 3) \<longleftrightarrow>
         (\<exists>n els dn. fruitless late_link ''#late'' None 10000 n None 0 = Some (els, dn)
            \<and> of_int (milli_now late_link dn) < (10000 :: rat)
            \<and> attempt late_link ''#late'' None els dn = (Return 6, 3))"
    unfolding D iw by (elim conjE) (erule allE [of _ 6], erule allE [of _ 3])
  with run tick late zzz show ?thesis by simp
qed

lemma attempt_by_winning:
  "attempt b sel parent els d =
     (case winning b sel parent els d of
        (Some es, d1) \<Rightarrow> pick b es d1
      | (None, d1) \<Rightarrow>
          (if startswith sel ''#'' \<or> startswith sel ''.'' then Continue els
           else Raise unbound_elements, d1))"
proof -
  obtain r d1 where w: "winning b sel parent els d = (r, d1)"
    by (cases "winning b sel parent els d")
  show ?thesis
  proof (cases "startswith sel ''#''")
    case True
    with w show ?thesis
      by (cases r) (simp_all add: attempt_def winning_def)
  next
    case nohash: False
    show ?thesis
    proof (cases "startswith sel ''.''")
      case True
      with nohash w show ?thesis
        by (cases r) (simp_all add: attempt_def winning_def)
    next
      case False
      with nohash w show ?thesis
        by (cases r) (simp_all add: attempt_def winning_def unbound_elements_def)
    qed
  qed
qed

lemma attempt_returns_iff:
  assumes "\<forall>e d. fst (tag_name b e d) = tg e"
    and "\<forall>e d. fst (get_attribute b e ''type'' d) = ty e"
  shows "fst (attempt b sel parent els d) = Return e \<longleftrightarrow>
     (\<exists>es. fst (winning b sel parent els d) = Some es
        \<and> List.find (\<lambda>e. \<not> hidden_input tg ty e) es = Some e)"
proof -
  obtain r d1 where w: "winning b sel parent els d = (r, d1)"
    by (cases "winning b sel parent els d")
  show ?thesis
  proof (cases r)
    case None
    with w show ?thesis by (simp add: attempt_by_winning)
  next
    case (Some es)
    with w have "fst (attempt b sel parent els d) = fst (pick b es d1)"
      by (simp add: attempt_by_winning)
    also have "\<dots> = (case List.find (\<lambda>e. \<not> hidden_input tg ty e) es of
        Some e \<Rightarrow> Return e | None \<Rightarrow> Continue (Some es))"
      by (rule pick_find [OF assms])
    finally show ?thesis
      using w Some by (cases "List.find (\<lambda>e. \<not> hidden_input tg ty e) es") simp_all
  qed
qed

section \<open>Hidden inputs\<close>

text \<open>
  C3. Take a driver on which the tag and the type attribute of an element do not change
  (\<open>tg\<close> and \<open>ty\<close>). What a pass does with a list of elements: it returns the first
  element of the list, in the list's order, that is not an input with type \<open>hidden\<close>,
  and when every element is one it yields nothing and the polling goes on. A pass
  returns the element \<open>e\<close> exactly when the list of its winning lookup has \<open>e\<close> as its first
  element that is not a hidden input. The resolver returns \<open>e\<close> exactly when, after some
  number of passes that began before the deadline and yielded nothing, a pass begins
  before the deadline whose winning list has \<open>e\<close> as its first element that is not a
  hidden input; the call then ends as that pass ends. If moreover each lookup takes at
  least some fixed time and every lookup in the scope, for the selector, answers with
  hidden inputs only, the call fails with \<open>NoSuchElementException\<close>, and it does so when
  the clock has reached the deadline.
\<close>

theorem hidden_inputs_are_skipped:
  assumes "\<forall>e d. fst (tag_name b e d) = tg e"
    and "\<forall>e d. fst (get_attribute b e ''type'' d) = ty e"
  shows "fst (pick b es d) =
       (case List.find (\<lambda>e. \<not> hidden_input tg ty e) es of
          Some e \<Rightarrow> Return e
        | None \<Rightarrow> Continue (Some es))
     \<and> (\<forall>e. fst (attempt b sel parent els d) = Return e \<longleftrightarrow>
           (\<exists>es. fst (winning b sel parent els d) = Some es
              \<and> List.find (\<lambda>e. \<not> hidden_input tg ty e) es = Some e))
     \<and> (\<forall>e d'. get_element b sel parent timeout d = Some (Inr e, d') \<longleftrightarrow>
           (\<exists>n els dn es.
              fruitless b sel parent (py_add b (of_int (milli_now b d)) (py_mul b timeout 1000)) n
                None (implicitly_wait b 0 d) = Some (els, dn)
              \<and> of_int (milli_now b dn) < py_add b (of_int (milli_now b d)) (py_mul b timeout 1000)
              \<and> fst (winning b sel parent els dn) = Some es
              \<and> List.find (\<lambda>e. \<not> hidden_input tg ty e) es = Some e
              \<and> d' = snd (attempt b sel parent els dn)))
     \<and> (ticking b \<delta>
          \<and> (\<forall>k d. \<forall>s \<in> {sel, replace ''#'' [] sel, replace ''.'' [] sel}.
                \<exists>es. fst (find_elements b k (scope_of parent) s d) = Some es
                   \<and> (\<forall>e \<in> set es. hidden_input tg ty e))
        \<longrightarrow> (\<exists>d'. get_element b sel parent timeout d
                    = Some (Inl (Exn NoSuchElementException
                                  (''Could not find element matching '' @ sel)), d')
                \<and> py_add b (of_int (milli_now b d)) (py_mul b timeout 1000) \<le> of_int (milli_now b d')))"
proof (intro conjI allI impI)
  show "fst (pick b es d) =
       (case List.find (\<lambda>e. \<not> hidden_input tg ty e) es of
          Some e \<Rightarrow> Return e
        | None \<Rightarrow> Continue (Some es))"
    by (rule pick_find [OF assms])
next
  fix e
  show "fst (attempt b sel parent els d) = Return e \<longleftrightarrow>
           (\<exists>es. fst (winning b sel parent els d) = Some es
              \<and> List.find (\<lambda>e. \<not> hidden_input tg ty e) es = Some e)"
    by (rule attempt_returns_iff [OF assms])
next
  fix e d'
  let ?D = "py_add b (of_int (milli_now b d)) (py_mul b timeout 1000)"
  have pass: "attempt b sel parent els dn = (Return e, d') \<longleftrightarrow>
      (\<exists>es. fst (winning b sel parent els dn) = Some es
         \<and> List.find (\<lambda>e. \<not> hidden_input tg ty e) es = Some e
         \<and> d' = snd (attempt b sel parent els dn))" for els dn
    using attempt_returns_iff [OF assms, of sel parent els dn e]
    by (cases "attempt b sel parent els dn") auto
  show "get_element b sel parent timeout d = Some (Inr e, d') \<longleftrightarrow>
           (\<exists>n els dn es.
              fruitless b sel parent ?D n None (implicitly_wait b 0 d) = Some (els, dn)
              \<and> of_int (milli_now b dn) < ?D
              \<and> fst (winning b sel parent els dn) = Some es
              \<and> List.find (\<lambda>e. \<not> hidden_input tg ty e) es = Some e
              \<and> d' = snd (attempt b sel parent els dn))"
    unfolding get_element_returns_iff pass by blast
next
  assume h: "ticking b \<delta>
          \<and> (\<forall>k d. \<forall>s \<in> {sel, replace ''#'' [] sel, replace ''.'' [] sel}.
                \<exists>es. fst (find_elements b k (scope_of parent) s d) = Some es
                   \<and> (\<forall>e \<in> set es. hidden_input tg ty e))"
  then have tick: "ticking b \<delta>" and hyp: "\<forall>k d. \<forall>s \<in> {sel, replace ''#'' [] sel, replace ''.'' [] sel}.
                \<exists>es. fst (find_elements b k (scope_of parent) s d) = Some es
                   \<and> (\<forall>e \<in> set es. hidden_input tg ty e)"
    by blast+
  from poll_all_hidden [OF tick assms hyp,
      of "py_add b (of_int (milli_now b d)) (py_mul b timeout 1000)" None "implicitly_wait b 0 d"]
  show "\<exists>d'. get_element b sel parent timeout d
                    = Some (Inl (Exn NoSuchElementException
                                  (''Could not find element matching '' @ sel)), d')
                \<and> py_add b (of_int (milli_now b d)) (py_mul b timeout 1000) \<le> of_int (milli_now b d')"
    by (simp add: get_element_def not_found_def)
qed

theorem hidden_inputs_are_skipped_witness:
  "winning search_page ''q'' None None 0 = (Some [1, 2], 2)
   \<and> fst (pick search_page [1, 2] 0) = Return 2
   \<and> get_element search_page ''q'' None 10 0 = Some (Inr 2, 2)
   \<and> (\<exists>d'. get_element search_page ''token'' None 2 0
            = Some (Inl (Exn NoSuchElementException ''Could not find element matching token''), d')
          \<and> (2000 :: rat) \<le> of_int (milli_now search_page d'))"
proof -
  let ?tg = "\<lambda>e :: element. if e = 1 \<or> e = 2 then ''INPUT'' else if e = 4 then ''form'' else ''div''"
  let ?ty = "\<lambda>e :: element. if e = 1 then Some ''hidden'' else if e = 2 then Some ''text'' else None"
  have tags: "\<forall>e d. fst (tag_name search_page e d) = ?tg e"
    by (simp add: search_page_def clockwork_def)
  have types: "\<forall>e d. fst (get_attribute search_page e ''type'' d) = ?ty e"
    by (simp add: search_page_def clockwork_def)
  have tick: "ticking search_page 1"
    unfolding search_page_def by (rule ticking_clockwork)
  have h1: "hidden_input ?tg ?ty 1" and h2: "\<not> hidden_input ?tg ?ty 2"
    by (simp_all add: hidden_input_def lower_def lower_char_def ascii_uppercase_def
          ascii_lowercase_def)
  have hyp: "\<forall>k d. \<forall>s \<in> {''token'', replace ''#'' [] ''token'', replace ''.'' [] ''token''}.
      \<exists>es. fst (find_elements search_page k (scope_of None) s d) = Some es
         \<and> (\<forall>e \<in> set es. hidden_input ?tg ?ty e)"
    using h1 by (simp add: search_page_def clockwork_def)
  have m0: "milli_now search_page 0 = 0"
    by (simp add: milli_now_def millis_def py_int_def search_page_def clockwork_def)
  have D2: "py_add search_page 0 (py_mul search_page 2 1000) = 2000"
    and D10: "py_add search_page (of_int (milli_now search_page 0)) (py_mul search_page 10 1000)
        = 10000"
    by (simp_all add: search_page_def clockwork_def milli_now_def millis_def py_int_def)
  have iw: "implicitly_wait search_page 0 0 = 0"
    by (simp add: search_page_def clockwork_def)
  have win: "winning search_page ''q'' None None 0 = (Some [1, 2], 2)"
    by code_simp
  have att: "snd (attempt search_page ''q'' None None 0) = 2"
    by code_simp
  have fnd: "List.find (\<lambda>e. \<not> hidden_input ?tg ?ty e) [1, 2] = Some 2"
    by (simp add: hidden_input_def lower_def lower_char_def ascii_uppercase_def
          ascii_lowercase_def)
  note q = hidden_inputs_are_skipped [OF tags types, where es = "[1, 2]" and d = 0
      and sel = "''q''" and parent = None and timeout = 10]
  have p: "fst (pick search_page [1, 2] 0) = Return 2"
    using q [THEN conjunct1] unfolding fnd by simp
  have ex: "\<exists>n els dn es.
      fruitless search_page ''q'' None 10000 n None 0 = Some (els, dn)
      \<and> of_int (milli_now search_page dn) < (10000 :: rat)
      \<and> fst (winning search_page ''q'' None els dn) = Some es
      \<and> List.find (\<lambda>e. \<not> hidden_input ?tg ?ty e) es = Some 2
      \<and> 2 = snd (attempt search_page ''q'' None els dn)"
  proof (intro exI [of _ 0] exI [of _ None] exI [of _ "[1, 2]"] conjI)
    show "fruitless search_page ''q'' None 10000 0 None 0 = Some (None, 0)" by simp
    show "of_int (milli_now search_page 0) < (10000 :: rat)" by (simp add: m0)
    show "fst (winning search_page ''q'' None None 0) = Some [1, 2]" by (simp add: win)
    show "List.find (\<lambda>e. \<not> hidden_input ?tg ?ty e) [1, 2] = Some 2" by (rule fnd)
    show "2 = snd (attempt search_page ''q'' None None 0)" by (simp add: att)
  qed
  note c = q [THEN conjunct2, THEN conjunct2, THEN conjunct1, rule_format, of 2 2,
      unfolded D10 iw]
  have g: "get_element search_page ''q'' None 10 0 = Some (Inr 2, 2)"
    by (rule c [THEN iffD2]) (rule ex)
  from hidden_inputs_are_skipped [OF tags types, where sel = "''token''" and parent = None
      and \<delta> = 1 and timeout = 2 and d = 0] tick hyp
  have t: "\<exists>d'. get_element search_page ''token'' None 2 0
            = Some (Inl (Exn NoSuchElementException ''Could not find element matching token''), d')
          \<and> (2000 :: rat) \<le> of_int (milli_now search_page d')"
    by (simp add: m0 D2)
  from win p g t show ?thesis by simp
qed

end
